theory Spec2Isabelle
  imports Main "HOL-Library.Word"
begin

unbundle bit_operations_syntax

section \<open>Types.hpp\<close>

type_synonym run_number_t = "32 word"
type_synonym trigger_number_t = "64 word"
type_synonym timestamp_t = "64 word"
type_synonym trigger_type_t = "16 word"

text \<open>
  \<open>class MemoryAllocationFailed : public std::exception\<close>, with its members
  \<open>m_file\<close>, \<open>m_line\<close> and \<open>m_bytes\<close>. It is the only exception type the sources declare.
\<close>

datatype exception = MemoryAllocationFailed string int nat

section \<open>GeoID.hpp\<close>

record GeoID =
  apa_number :: "32 word"
  link_number :: "32 word"

text \<open>
  \<open>operator<\<close> of \<open>std::tuple\<close> on two components, as the standard defines it: the
  first components decide unless neither is smaller than the other, then the second do.
\<close>

definition tuple_less :: "('a::ord) \<times> ('b::ord) \<Rightarrow> 'a \<times> 'b \<Rightarrow> bool" where
  "tuple_less t u =
     (if fst t < fst u then True
      else if fst u < fst t then False
      else snd t < snd u)"

definition GeoID_less :: "GeoID \<Rightarrow> GeoID \<Rightarrow> bool" where
  "GeoID_less this other =
     tuple_less (apa_number this, link_number this) (apa_number other, link_number other)"

section \<open>Memory\<close>

text \<open>
  A byte of memory either holds a value or is indeterminate (\<open>None\<close>): freshly allocated
  storage and the members of a local object without an initialiser. Memory is a list of
  blocks; a pointer is null (\<open>None\<close>) or the base of a block; a released block is \<open>None\<close>.
\<close>

type_synonym byte = "8 word"
type_synonym mbyte = "byte option"
type_synonym ptr = "nat option"

datatype fault = NullPointer | InvalidPointer | OutOfBounds | IndeterminateValue | BitsetIndex

text \<open>
  An operation fails either with a C++ exception or with behaviour the language leaves
  undefined; the fault names the offending access.
\<close>

datatype failure = Thrown exception | Undefined fault

fun is_thrown :: "(failure + 'a) \<Rightarrow> bool" where
  "is_thrown (Inl (Thrown e)) = True"
| "is_thrown (Inl (Undefined f)) = False"
| "is_thrown (Inr v) = False"

record heap =
  blocks :: "mbyte list option list"
  avail :: nat

text \<open>
  \<open>malloc\<close> of the C library: a null pointer when the request cannot be met (here: when
  it exceeds the bytes the allocator has left), otherwise a new block of indeterminate bytes.
\<close>

definition malloc :: "nat \<Rightarrow> heap \<Rightarrow> ptr \<times> heap" where
  "malloc sz h =
     (if sz \<le> avail h
      then (Some (length (blocks h)),
            h\<lparr>blocks := blocks h @ [Some (replicate sz None)], avail := avail h - sz\<rparr>)
      else (None, h))"

text \<open>\<open>free\<close>: nothing for a null pointer; releasing a block that is not live is undefined.\<close>

definition free :: "ptr \<Rightarrow> heap \<Rightarrow> failure + heap" where
  "free p h =
     (case p of
        None \<Rightarrow> Inr h
      | Some b \<Rightarrow>
          (if b < length (blocks h)
           then (case blocks h ! b of
                   None \<Rightarrow> Inl (Undefined InvalidPointer)
                 | Some buf \<Rightarrow>
                     Inr (h\<lparr>blocks := (blocks h)[b := None], avail := avail h + length buf\<rparr>))
           else Inl (Undefined InvalidPointer)))"

definition deref :: "heap \<Rightarrow> ptr \<Rightarrow> failure + mbyte list" where
  "deref h p =
     (case p of
        None \<Rightarrow> Inl (Undefined NullPointer)
      | Some b \<Rightarrow>
          (if b < length (blocks h)
           then (case blocks h ! b of
                   None \<Rightarrow> Inl (Undefined InvalidPointer)
                 | Some buf \<Rightarrow> Inr buf)
           else Inl (Undefined InvalidPointer)))"

text \<open>Reading \<open>n\<close> bytes at byte offset \<open>off\<close> from a pointer, and writing bytes there.\<close>

definition load :: "heap \<Rightarrow> ptr \<Rightarrow> nat \<Rightarrow> nat \<Rightarrow> failure + mbyte list" where
  "load h p off n =
     (case deref h p of
        Inl f \<Rightarrow> Inl f
      | Inr buf \<Rightarrow>
          (if off + n \<le> length buf then Inr (take n (drop off buf))
           else Inl (Undefined OutOfBounds)))"

definition store :: "heap \<Rightarrow> ptr \<Rightarrow> nat \<Rightarrow> mbyte list \<Rightarrow> failure + heap" where
  "store h p off bs =
     (case deref h p of
        Inl f \<Rightarrow> Inl f
      | Inr buf \<Rightarrow>
          (if off + length bs \<le> length buf
           then Inr (h\<lparr>blocks := (blocks h)[the p :=
                       Some (take off buf @ bs @ drop (off + length bs) buf)]\<rparr>)
           else Inl (Undefined OutOfBounds)))"

definition memcpy :: "heap \<Rightarrow> ptr \<Rightarrow> ptr \<Rightarrow> nat \<Rightarrow> failure + heap" where
  "memcpy h dst src n =
     (case load h src 0 n of
        Inl f \<Rightarrow> Inl f
      | Inr bs \<Rightarrow> store h dst 0 bs)"

subsection \<open>Object representation of unsigned integers\<close>

text \<open>The bytes of an unsigned integer, least significant first (the x86-64 layout).\<close>

fun le_bytes :: "nat \<Rightarrow> 'a::len word \<Rightarrow> byte list" where
  "le_bytes 0 w = []"
| "le_bytes (Suc n) w = ucast w # le_bytes n (drop_bit 8 w)"

fun le_word :: "byte list \<Rightarrow> 'a::len word" where
  "le_word [] = 0"
| "le_word (b # bs) = ucast b OR push_bit 8 (le_word bs)"

text \<open>A scalar member is determinate (\<open>Some\<close>) or indeterminate (\<open>None\<close>).\<close>

definition field_bytes :: "nat \<Rightarrow> ('a::len word) option \<Rightarrow> mbyte list" where
  "field_bytes n v = (case v of None \<Rightarrow> replicate n None | Some w \<Rightarrow> map Some (le_bytes n w))"

definition field_value :: "mbyte list \<Rightarrow> ('a::len word) option" where
  "field_value bs = map_option le_word (those bs)"

definition read_field :: "heap \<Rightarrow> ptr \<Rightarrow> nat \<Rightarrow> nat \<Rightarrow> failure + 'a::len word" where
  "read_field h p off n =
     (case load h p off n of
        Inl f \<Rightarrow> Inl f
      | Inr bs \<Rightarrow>
          (case field_value bs of
             None \<Rightarrow> Inl (Undefined IndeterminateValue)
           | Some w \<Rightarrow> Inr w))"

definition write_field :: "heap \<Rightarrow> ptr \<Rightarrow> nat \<Rightarrow> nat \<Rightarrow> 'a::len word \<Rightarrow> failure + heap" where
  "write_field h p off n w = store h p off (field_bytes n (Some w))"

section \<open>TriggerRecordHeader.hpp\<close>

subsection \<open>struct TriggerRecordHeaderData\<close>

definition TRIGGER_RECORD_HEADER_MAGIC :: "32 word" where
  "TRIGGER_RECORD_HEADER_MAGIC = 0x33334444"

definition TRIGGER_RECORD_HEADER_VERSION :: "32 word" where
  "TRIGGER_RECORD_HEADER_VERSION = 1"

record TriggerRecordHeaderData =
  trigger_record_header_marker :: "32 word option"
  version :: "32 word option"
  trigger_number :: "trigger_number_t option"
  trigger_timestamp :: "timestamp_t option"
  num_requested_components :: "64 word option"
  run_number :: "run_number_t option"
  error_bits :: "32 word option"
  trigger_type :: "trigger_type_t option"
  unused :: "48 word option"

text \<open>
  A default-initialised \<open>TriggerRecordHeaderData\<close>: the struct nested in
  \<open>TriggerRecordHeader\<close> gives default member initialisers to the marker, the version and
  the error bits only; every other member is left indeterminate.
\<close>

definition TriggerRecordHeaderData_default :: TriggerRecordHeaderData where
  "TriggerRecordHeaderData_default =
     \<lparr>trigger_record_header_marker = Some TRIGGER_RECORD_HEADER_MAGIC,
      version = Some TRIGGER_RECORD_HEADER_VERSION,
      trigger_number = None,
      trigger_timestamp = None,
      num_requested_components = None,
      run_number = None,
      error_bits = Some 0,
      trigger_type = None,
      unused = None\<rparr>"

text \<open>Member offsets and size of the struct (natural alignment, 64-bit).\<close>

definition off_marker :: nat where "off_marker = 0"
definition off_version :: nat where "off_version = 4"
definition off_trigger_number :: nat where "off_trigger_number = 8"
definition off_trigger_timestamp :: nat where "off_trigger_timestamp = 16"
definition off_num_requested_components :: nat where "off_num_requested_components = 24"
definition off_run_number :: nat where "off_run_number = 32"
definition off_error_bits :: nat where "off_error_bits = 36"
definition off_trigger_type :: nat where "off_trigger_type = 40"
definition off_unused :: nat where "off_unused = 42"
definition sizeof_TriggerRecordHeaderData :: nat where "sizeof_TriggerRecordHeaderData = 48"

definition object_repr :: "TriggerRecordHeaderData \<Rightarrow> mbyte list" where
  "object_repr d =
     field_bytes 4 (trigger_record_header_marker d) @
     field_bytes 4 (version d) @
     field_bytes 8 (trigger_number d) @
     field_bytes 8 (trigger_timestamp d) @
     field_bytes 8 (num_requested_components d) @
     field_bytes 4 (run_number d) @
     field_bytes 4 (error_bits d) @
     field_bytes 2 (trigger_type d) @
     field_bytes 6 (unused d)"

definition struct_value :: "mbyte list \<Rightarrow> TriggerRecordHeaderData" where
  "struct_value bs =
     \<lparr>trigger_record_header_marker = field_value (take 4 (drop off_marker bs)),
      version = field_value (take 4 (drop off_version bs)),
      trigger_number = field_value (take 8 (drop off_trigger_number bs)),
      trigger_timestamp = field_value (take 8 (drop off_trigger_timestamp bs)),
      num_requested_components = field_value (take 8 (drop off_num_requested_components bs)),
      run_number = field_value (take 4 (drop off_run_number bs)),
      error_bits = field_value (take 4 (drop off_error_bits bs)),
      trigger_type = field_value (take 2 (drop off_trigger_type bs)),
      unused = field_value (take 6 (drop off_unused bs))\<rparr>"

subsection \<open>ComponentRequest\<close>

text \<open>
  Modelled from the spec: \<open>ComponentRequest.hpp\<close> is not among the sources. The spec
  takes the element as a fixed-size, trivially copyable record whose layout is opaque
  beyond its size, so a \<open>ComponentRequest\<close> is its object representation, and
  \<open>sizeof(ComponentRequest)\<close> is the parameter \<open>esz\<close> of every operation that uses it.
\<close>

type_synonym ComponentRequest = "mbyte list"

subsection \<open>class TriggerRecordHeader\<close>

text \<open>The data members \<open>data_arr_\<close> and \<open>alloc_\<close>, with their initialisers.\<close>

record TriggerRecordHeader =
  data_arr :: ptr
  alloc :: bool

definition TriggerRecordHeader_init :: TriggerRecordHeader where
  "TriggerRecordHeader_init = \<lparr>data_arr = None, alloc = False\<rparr>"

text \<open>The loop of the first constructor: one \<open>memcpy\<close> per component, the offset advancing.\<close>

fun copy_components ::
  "nat \<Rightarrow> heap \<Rightarrow> ptr \<Rightarrow> nat \<Rightarrow> ComponentRequest list \<Rightarrow> (failure + unit) \<times> heap" where
  "copy_components esz h p offset [] = (Inr (), h)"
| "copy_components esz h p offset (component # rest) =
     (case store h p offset (take esz component) of
        Inl f \<Rightarrow> (Inl f, h)
      | Inr h' \<Rightarrow> copy_components esz h' p (offset + esz) rest)"

text \<open>\<open>explicit TriggerRecordHeader(std::vector<ComponentRequest> components)\<close>\<close>

definition TriggerRecordHeader_from_components ::
  "nat \<Rightarrow> ComponentRequest list \<Rightarrow> heap \<Rightarrow> (failure + TriggerRecordHeader) \<times> heap" where
  "TriggerRecordHeader_from_components esz components h =
     (let sz = (sizeof_TriggerRecordHeaderData + length components * esz) mod 2 ^ 64;
          (p, h1) = malloc sz h;
          this = TriggerRecordHeader_init\<lparr>data_arr := p, alloc := True\<rparr>;
          header = TriggerRecordHeaderData_default
                     \<lparr>num_requested_components := Some (of_nat (length components))\<rparr>
      in case store h1 (data_arr this) 0 (object_repr header) of
           Inl f \<Rightarrow> (Inl f, h1)
         | Inr h2 \<Rightarrow>
             (case copy_components esz h2 (data_arr this) sizeof_TriggerRecordHeaderData components of
                (Inl f, h3) \<Rightarrow> (Inl f, h3)
              | (Inr u, h3) \<Rightarrow> (Inr this, h3)))"

text \<open>\<open>explicit TriggerRecordHeader(void* existing_trigger_record_header_buffer, bool copy_from_buffer)\<close>\<close>

definition TriggerRecordHeader_from_buffer ::
  "nat \<Rightarrow> ptr \<Rightarrow> bool \<Rightarrow> heap \<Rightarrow> (failure + TriggerRecordHeader) \<times> heap" where
  "TriggerRecordHeader_from_buffer esz existing_buffer copy_from_buffer h =
     (if \<not> copy_from_buffer
      then (Inr (TriggerRecordHeader_init\<lparr>data_arr := existing_buffer\<rparr>), h)
      else
        (case read_field h existing_buffer off_num_requested_components 8 of
           Inl f \<Rightarrow> (Inl f, h)
         | Inr (n :: 64 word) \<Rightarrow>
             (let sz = unat (n * of_nat esz + of_nat sizeof_TriggerRecordHeaderData :: 64 word);
                  (p, h1) = malloc sz h;
                  this = TriggerRecordHeader_init\<lparr>data_arr := p, alloc := True\<rparr>
              in case memcpy h1 (data_arr this) existing_buffer sz of
                   Inl f \<Rightarrow> (Inl f, h1)
                 | Inr h2 \<Rightarrow> (Inr this, h2))))"

text \<open>The copy constructor delegates to the constructor above with \<open>copy_from_buffer = true\<close>.\<close>

definition TriggerRecordHeader_copy ::
  "nat \<Rightarrow> TriggerRecordHeader \<Rightarrow> heap \<Rightarrow> (failure + TriggerRecordHeader) \<times> heap" where
  "TriggerRecordHeader_copy esz other h = TriggerRecordHeader_from_buffer esz (data_arr other) True h"

text \<open>The destructor.\<close>

definition TriggerRecordHeader_destroy :: "TriggerRecordHeader \<Rightarrow> heap \<Rightarrow> failure + heap" where
  "TriggerRecordHeader_destroy this h = (if alloc this then free (data_arr this) h else Inr h)"

subsection \<open>Accessors\<close>

definition get_header :: "heap \<Rightarrow> TriggerRecordHeader \<Rightarrow> failure + TriggerRecordHeaderData" where
  "get_header h this =
     (case load h (data_arr this) 0 sizeof_TriggerRecordHeaderData of
        Inl f \<Rightarrow> Inl f
      | Inr bs \<Rightarrow> Inr (struct_value bs))"

definition get_trigger_number :: "heap \<Rightarrow> TriggerRecordHeader \<Rightarrow> failure + trigger_number_t" where
  "get_trigger_number h this = read_field h (data_arr this) off_trigger_number 8"

definition set_trigger_number :: "trigger_number_t \<Rightarrow> TriggerRecordHeader \<Rightarrow> heap \<Rightarrow> failure + heap" where
  "set_trigger_number v this h = write_field h (data_arr this) off_trigger_number 8 v"

definition get_trigger_timestamp :: "heap \<Rightarrow> TriggerRecordHeader \<Rightarrow> failure + timestamp_t" where
  "get_trigger_timestamp h this = read_field h (data_arr this) off_trigger_timestamp 8"

definition set_trigger_timestamp :: "timestamp_t \<Rightarrow> TriggerRecordHeader \<Rightarrow> heap \<Rightarrow> failure + heap" where
  "set_trigger_timestamp v this h = write_field h (data_arr this) off_trigger_timestamp 8 v"

definition get_num_requested_components :: "heap \<Rightarrow> TriggerRecordHeader \<Rightarrow> failure + 64 word" where
  "get_num_requested_components h this =
     read_field h (data_arr this) off_num_requested_components 8"

definition get_run_number :: "heap \<Rightarrow> TriggerRecordHeader \<Rightarrow> failure + run_number_t" where
  "get_run_number h this = read_field h (data_arr this) off_run_number 4"

definition set_run_number :: "run_number_t \<Rightarrow> TriggerRecordHeader \<Rightarrow> heap \<Rightarrow> failure + heap" where
  "set_run_number v this h = write_field h (data_arr this) off_run_number 4 v"

text \<open>A \<open>std::bitset<32>\<close> is a 32-bit word; \<open>to_ulong\<close> of it narrows back without loss.\<close>

definition get_error_bits :: "heap \<Rightarrow> TriggerRecordHeader \<Rightarrow> failure + 32 word" where
  "get_error_bits h this = read_field h (data_arr this) off_error_bits 4"

definition set_error_bits :: "32 word \<Rightarrow> TriggerRecordHeader \<Rightarrow> heap \<Rightarrow> failure + heap" where
  "set_error_bits bits this h = write_field h (data_arr this) off_error_bits 4 bits"

text \<open>\<open>operator[]\<close> of \<open>std::bitset<32>\<close> does not check its position: 32 and above is undefined.\<close>

definition get_error_bit :: "nat \<Rightarrow> heap \<Rightarrow> TriggerRecordHeader \<Rightarrow> failure + bool" where
  "get_error_bit b h this =
     (case get_error_bits h this of
        Inl f \<Rightarrow> Inl f
      | Inr bits \<Rightarrow> (if b < 32 then Inr (bit bits b) else Inl (Undefined BitsetIndex)))"

definition set_error_bit :: "nat \<Rightarrow> bool \<Rightarrow> TriggerRecordHeader \<Rightarrow> heap \<Rightarrow> failure + heap" where
  "set_error_bit b v this h =
     (case get_error_bits h this of
        Inl f \<Rightarrow> Inl f
      | Inr bits \<Rightarrow>
          (if b < 32
           then set_error_bits (if v then set_bit b bits else unset_bit b bits) this h
           else Inl (Undefined BitsetIndex)))"

definition get_trigger_type :: "heap \<Rightarrow> TriggerRecordHeader \<Rightarrow> failure + trigger_type_t" where
  "get_trigger_type h this = read_field h (data_arr this) off_trigger_type 2"

definition set_trigger_type :: "trigger_type_t \<Rightarrow> TriggerRecordHeader \<Rightarrow> heap \<Rightarrow> failure + heap" where
  "set_trigger_type v this h = write_field h (data_arr this) off_trigger_type 2 v"

definition get_total_size_bytes :: "nat \<Rightarrow> heap \<Rightarrow> TriggerRecordHeader \<Rightarrow> failure + nat" where
  "get_total_size_bytes esz h this =
     (case read_field h (data_arr this) off_num_requested_components 8 of
        Inl f \<Rightarrow> Inl f
      | Inr (n :: 64 word) \<Rightarrow>
          Inr (unat (n * of_nat esz + of_nat sizeof_TriggerRecordHeaderData :: 64 word)))"

definition get_storage_location :: "TriggerRecordHeader \<Rightarrow> ptr" where
  "get_storage_location this = data_arr this"

text \<open>
  \<open>at\<close>: the body of the range test is a comment only, so the test decides nothing and
  both branches go on to the same read, \<open>idx\<close> elements after the header.
\<close>

definition at :: "nat \<Rightarrow> heap \<Rightarrow> TriggerRecordHeader \<Rightarrow> nat \<Rightarrow> failure + ComponentRequest" where
  "at esz h this idx =
     (case read_field h (data_arr this) off_num_requested_components 8 of
        Inl f \<Rightarrow> Inl f
      | Inr (n :: 64 word) \<Rightarrow>
          (if idx \<ge> unat n
           then load h (data_arr this) (sizeof_TriggerRecordHeaderData + idx * esz) esz
           else load h (data_arr this) (sizeof_TriggerRecordHeaderData + idx * esz) esz))"

text \<open>
  \<open>operator[]\<close> returns a reference: the pointer and the byte offset of the element. Its
  range test has the same empty body.
\<close>

definition subscript :: "nat \<Rightarrow> heap \<Rightarrow> TriggerRecordHeader \<Rightarrow> nat \<Rightarrow> failure + (ptr \<times> nat)" where
  "subscript esz h this idx =
     (case read_field h (data_arr this) off_num_requested_components 8 of
        Inl f \<Rightarrow> Inl f
      | Inr (n :: 64 word) \<Rightarrow>
          (if idx \<ge> unat n
           then Inr (data_arr this, sizeof_TriggerRecordHeaderData + idx * esz)
           else Inr (data_arr this, sizeof_TriggerRecordHeaderData + idx * esz)))"

text \<open>Reading and assigning a \<open>ComponentRequest\<close> through such a reference.\<close>

definition ref_read :: "nat \<Rightarrow> heap \<Rightarrow> ptr \<times> nat \<Rightarrow> failure + ComponentRequest" where
  "ref_read esz h r = load h (fst r) (snd r) esz"

definition ref_assign :: "nat \<Rightarrow> ptr \<times> nat \<Rightarrow> ComponentRequest \<Rightarrow> heap \<Rightarrow> failure + heap" where
  "ref_assign esz r c h = store h (fst r) (snd r) (take esz c)"

subsection \<open>Copy assignment\<close>

text \<open>
  \<open>operator=\<close> compares the addresses of the two objects, so the objects live in a
  store of their own, indexed by address.
\<close>

type_synonym objects = "nat \<Rightarrow> TriggerRecordHeader"

definition copy_assign ::
  "nat \<Rightarrow> nat \<Rightarrow> nat \<Rightarrow> objects \<times> heap \<Rightarrow> (failure + unit) \<times> objects \<times> heap" where
  "copy_assign esz this other s =
     (let objs = fst s; h = snd s in
      if other = this then (Inr (), objs, h)
      else
        (case get_total_size_bytes esz h (objs other) of
           Inl f \<Rightarrow> (Inl f, objs, h)
         | Inr sz \<Rightarrow>
             (let (p, h1) = malloc sz h;
                  objs1 = objs(this := (objs this)\<lparr>data_arr := p, alloc := True\<rparr>)
              in case get_total_size_bytes esz h1 (objs1 other) of
                   Inl f \<Rightarrow> (Inl f, objs1, h1)
                 | Inr sz2 \<Rightarrow>
                     (case memcpy h1 (data_arr (objs1 this)) (data_arr (objs1 other)) sz2 of
                        Inl f \<Rightarrow> (Inl f, objs1, h1)
                      | Inr h2 \<Rightarrow> (Inr (), objs1, h2)))))"

subsection \<open>Instances and their use\<close>

text \<open>
  The invariant of the data model: \<open>data_arr_\<close> points to a live buffer, shorter than
  the address space, whose header holds a determinate component count, and the buffer
  holds the header and that many components.
\<close>

definition valid_instance :: "nat \<Rightarrow> heap \<Rightarrow> TriggerRecordHeader \<Rightarrow> bool" where
  "valid_instance esz h this =
     (case deref h (data_arr this) of
        Inl f \<Rightarrow> False
      | Inr buf \<Rightarrow>
          length buf < 2 ^ 64 \<and>
          (case get_num_requested_components h this of
             Inl f \<Rightarrow> False
           | Inr n \<Rightarrow> sizeof_TriggerRecordHeaderData + unat n * esz \<le> length buf))"

text \<open>
  The calls that change a record through an instance: the setters, and the assignment of
  a component through the reference that \<open>operator[]\<close> returns.
\<close>

datatype mutation =
    Set_trigger_number trigger_number_t
  | Set_trigger_timestamp timestamp_t
  | Set_run_number run_number_t
  | Set_error_bits "32 word"
  | Set_error_bit nat bool
  | Set_trigger_type trigger_type_t
  | Assign_element nat ComponentRequest

fun mutate :: "nat \<Rightarrow> mutation \<Rightarrow> TriggerRecordHeader \<Rightarrow> heap \<Rightarrow> failure + heap" where
  "mutate esz (Set_trigger_number v) this h = set_trigger_number v this h"
| "mutate esz (Set_trigger_timestamp v) this h = set_trigger_timestamp v this h"
| "mutate esz (Set_run_number v) this h = set_run_number v this h"
| "mutate esz (Set_error_bits v) this h = set_error_bits v this h"
| "mutate esz (Set_error_bit b v) this h = set_error_bit b v this h"
| "mutate esz (Set_trigger_type v) this h = set_trigger_type v this h"
| "mutate esz (Assign_element idx c) this h =
     (case subscript esz h this idx of
        Inl f \<Rightarrow> Inl f
      | Inr r \<Rightarrow> ref_assign esz r c h)"

subsection \<open>Example states\<close>

text \<open>
  A fully determinate header (trigger 42, run 7) that counts \<open>n\<close> components, and two
  components of four bytes each.
\<close>

definition example_header :: "64 word \<Rightarrow> TriggerRecordHeaderData" where
  "example_header n =
     \<lparr>trigger_record_header_marker = Some TRIGGER_RECORD_HEADER_MAGIC,
      version = Some TRIGGER_RECORD_HEADER_VERSION,
      trigger_number = Some 42,
      trigger_timestamp = Some 1000,
      num_requested_components = Some n,
      run_number = Some 7,
      error_bits = Some 5,
      trigger_type = Some 3,
      unused = Some 0\<rparr>"

definition example_components :: "ComponentRequest list" where
  "example_components = [[Some 1, Some 2, Some 3, Some 4], [Some 5, Some 6, Some 7, Some 8]]"

text \<open>A caller's buffer of 56 bytes: a header that counts one component, followed by two.\<close>

definition example_heap :: heap where
  "example_heap =
     \<lparr>blocks = [Some (object_repr (example_header 1) @ concat example_components)], avail = 100\<rparr>"

text \<open>A caller's buffer cut after the header, although the header counts one component.\<close>

definition truncated_heap :: heap where
  "truncated_heap = \<lparr>blocks = [Some (object_repr (example_header 1))], avail = 100\<rparr>"

text \<open>A complete buffer without components, and an allocator with nothing left.\<close>

definition exhausted_heap :: heap where
  "exhausted_heap = \<lparr>blocks = [Some (object_repr (example_header 0))], avail = 0\<rparr>"

text \<open>An instance that borrows block 0.\<close>

definition borrowed0 :: TriggerRecordHeader where
  "borrowed0 = \<lparr>data_arr = Some 0, alloc = False\<rparr>"

section \<open>Auxiliary facts\<close>

subsection \<open>Bytes and members\<close>

lemma length_le_bytes: "length (le_bytes n w) = n"
  by (induction n arbitrary: w) simp_all

lemma le_word_le_bytes: "le_word (le_bytes n w) = (take_bit (8 * n) w :: 'a::len word)"
proof (induction n arbitrary: w)
  case 0
  show ?case by simp
next
  case (Suc n)
  show ?case
    by (rule bit_eqI) (auto simp: Suc bit_simps)
qed

lemma le_word_le_bytes_id: "LENGTH('a::len) \<le> 8 * n \<Longrightarrow> le_word (le_bytes n w) = (w :: 'a word)"
  by (simp add: le_word_le_bytes take_bit_word_eq_self)

lemma those_map_Some: "those (map Some xs) = Some xs"
  by (induction xs) simp_all

lemma those_replicate_None: "0 < n \<Longrightarrow> those (replicate n None) = None"
  by (cases n) simp_all

lemma length_field_bytes: "length (field_bytes n v) = n"
  by (simp add: field_bytes_def length_le_bytes split: option.splits)

lemma field_value_field_bytes:
  "0 < n \<Longrightarrow> (\<And>w. v = Some w \<Longrightarrow> LENGTH('a::len) \<le> 8 * n) \<Longrightarrow> field_value (field_bytes n v) = (v :: 'a word option)"
  by (cases v) (simp_all add: field_value_def field_bytes_def those_map_Some those_replicate_None le_word_le_bytes_id)

subsection \<open>Memory accesses\<close>

lemma deref_Inr_iff:
  "deref h p = Inr buf \<longleftrightarrow> (\<exists>b. p = Some b \<and> b < length (blocks h) \<and> blocks h ! b = Some buf)"
  by (auto simp: deref_def split: option.splits)

lemma deref_Some: "b < length (blocks h) \<Longrightarrow> blocks h ! b = Some buf \<Longrightarrow> deref h (Some b) = Inr buf"
  by (simp add: deref_def)

lemma load_Inr: "deref h p = Inr buf \<Longrightarrow> off + n \<le> length buf \<Longrightarrow> load h p off n = Inr (take n (drop off buf))"
  by (simp add: load_def)

lemma store_Inr:
  "deref h (Some b) = Inr buf \<Longrightarrow> off + length bs \<le> length buf \<Longrightarrow>
   store h (Some b) off bs = Inr (h\<lparr>blocks := (blocks h)[b := Some (take off buf @ bs @ drop (off + length bs) buf)]\<rparr>)"
  by (simp add: store_def)

lemma deref_blocks_update_same:
  "b < length (blocks h) \<Longrightarrow> deref (h\<lparr>blocks := (blocks h)[b := Some buf]\<rparr>) (Some b) = Inr buf"
  by (simp add: deref_def)

lemma deref_blocks_update_other:
  "p \<noteq> Some b \<Longrightarrow> deref (h\<lparr>blocks := (blocks h)[b := x]\<rparr>) p = deref h p"
  by (cases p) (auto simp: deref_def nth_list_update)

lemma copy_components_Inr:
  "\<lbrakk>b < length (blocks h); blocks h ! b = Some buf; off + length cs * esz \<le> length buf;
    \<forall>c\<in>set cs. length c = esz\<rbrakk> \<Longrightarrow>
   copy_components esz h (Some b) off cs =
     (Inr (), h\<lparr>blocks := (blocks h)[b := Some (take off buf @ concat cs @ drop (off + length cs * esz) buf)]\<rparr>)"
proof (induction cs arbitrary: h buf off)
  case Nil
  then have "(blocks h)[b := Some buf] = blocks h" by (metis list_update_id)
  with Nil show ?case by simp
next
  case (Cons c cs)
  let ?buf' = "take off buf @ c @ drop (off + esz) buf"
  let ?h' = "h\<lparr>blocks := (blocks h)[b := Some ?buf']\<rparr>"
  from Cons.prems have len: "length c = esz" and fit: "off + esz \<le> length buf"
    and fit': "off + esz + length cs * esz \<le> length buf" by (simp_all add: algebra_simps)
  have st: "store h (Some b) off (take esz c) = Inr ?h'"
    using Cons.prems len fit by (simp add: store_Inr deref_Some)
  have lb: "length ?buf' = length buf" using len fit by simp
  have IH: "copy_components esz ?h' (Some b) (off + esz) cs =
     (Inr (), ?h'\<lparr>blocks := (blocks ?h')[b := Some (take (off + esz) ?buf' @ concat cs @
         drop (off + esz + length cs * esz) ?buf')]\<rparr>)"
    by (rule Cons.IH) (use Cons.prems lb fit' in simp_all)
  have t: "take (off + esz) ?buf' = take off buf @ c" using len fit by simp
  have d: "drop (off + esz + length cs * esz) ?buf' = drop (off + esz + length cs * esz) buf"
    using len fit by (simp add: add.commute)
  show ?case
    by (simp add: st IH t d del: take_append drop_append append_assoc) (simp add: algebra_simps)
qed

lemma take_drop_concat:
  "\<forall>c\<in>set cs. length c = esz \<Longrightarrow> i < length cs \<Longrightarrow> take esz (drop (i * esz) (concat cs)) = cs ! i"
proof (induction cs arbitrary: i)
  case Nil
  then show ?case by simp
next
  case (Cons c cs)
  show ?case
  proof (cases i)
    case 0
    with Cons.prems show ?thesis by simp
  next
    case (Suc j)
    with Cons.prems Cons.IH[of j] show ?thesis by simp
  qed
qed

subsection \<open>Layout of the header\<close>

lemmas off_defs = off_marker_def off_version_def off_trigger_number_def off_trigger_timestamp_def
  off_num_requested_components_def off_run_number_def off_error_bits_def off_trigger_type_def
  off_unused_def sizeof_TriggerRecordHeaderData_def

lemma length_object_repr: "length (object_repr d) = 48"
  by (simp add: object_repr_def length_field_bytes)

lemma struct_value_object_repr: "struct_value (object_repr d @ rest) = d"
  by (simp add: struct_value_def object_repr_def off_defs length_field_bytes field_value_field_bytes)

lemma object_repr_fields:
  "field_value (take 4 (drop off_marker (object_repr d @ rest))) = trigger_record_header_marker d"
  "field_value (take 4 (drop off_version (object_repr d @ rest))) = version d"
  "field_value (take 8 (drop off_trigger_number (object_repr d @ rest))) = trigger_number d"
  "field_value (take 8 (drop off_trigger_timestamp (object_repr d @ rest))) = trigger_timestamp d"
  "field_value (take 8 (drop off_num_requested_components (object_repr d @ rest))) = num_requested_components d"
  "field_value (take 4 (drop off_run_number (object_repr d @ rest))) = run_number d"
  "field_value (take 4 (drop off_error_bits (object_repr d @ rest))) = error_bits d"
  "field_value (take 2 (drop off_trigger_type (object_repr d @ rest))) = trigger_type d"
  by (simp_all add: object_repr_def off_defs length_field_bytes field_value_field_bytes)

lemma read_field_deref:
  "deref h p = Inr buf \<Longrightarrow> off + n \<le> length buf \<Longrightarrow>
   read_field h p off n =
     (case field_value (take n (drop off buf)) of
        None \<Rightarrow> Inl (Undefined IndeterminateValue) | Some w \<Rightarrow> Inr w)"
  by (simp add: read_field_def load_Inr)

lemma read_field_object_repr:
  assumes d: "deref h p = Inr (object_repr d @ rest)"
  shows "read_field h p off_trigger_number 8 =
           (case trigger_number d of None \<Rightarrow> Inl (Undefined IndeterminateValue) | Some w \<Rightarrow> Inr w)"
    and "read_field h p off_trigger_timestamp 8 =
           (case trigger_timestamp d of None \<Rightarrow> Inl (Undefined IndeterminateValue) | Some w \<Rightarrow> Inr w)"
    and "read_field h p off_num_requested_components 8 =
           (case num_requested_components d of None \<Rightarrow> Inl (Undefined IndeterminateValue) | Some w \<Rightarrow> Inr w)"
    and "read_field h p off_run_number 4 =
           (case run_number d of None \<Rightarrow> Inl (Undefined IndeterminateValue) | Some w \<Rightarrow> Inr w)"
    and "read_field h p off_error_bits 4 =
           (case error_bits d of None \<Rightarrow> Inl (Undefined IndeterminateValue) | Some w \<Rightarrow> Inr w)"
    and "read_field h p off_trigger_type 2 =
           (case trigger_type d of None \<Rightarrow> Inl (Undefined IndeterminateValue) | Some w \<Rightarrow> Inr w)"
proof -
  have len: "off_trigger_number + 8 \<le> length (object_repr d @ rest)"
    "off_trigger_timestamp + 8 \<le> length (object_repr d @ rest)"
    "off_num_requested_components + 8 \<le> length (object_repr d @ rest)"
    "off_run_number + 4 \<le> length (object_repr d @ rest)"
    "off_error_bits + 4 \<le> length (object_repr d @ rest)"
    "off_trigger_type + 2 \<le> length (object_repr d @ rest)"
    by (simp_all add: length_object_repr off_defs)
  show "read_field h p off_trigger_number 8 =
           (case trigger_number d of None \<Rightarrow> Inl (Undefined IndeterminateValue) | Some w \<Rightarrow> Inr w)"
    using read_field_deref[where ?'a = 64, OF d len(1)] by (simp only: object_repr_fields)
  show "read_field h p off_trigger_timestamp 8 =
           (case trigger_timestamp d of None \<Rightarrow> Inl (Undefined IndeterminateValue) | Some w \<Rightarrow> Inr w)"
    using read_field_deref[where ?'a = 64, OF d len(2)] by (simp only: object_repr_fields)
  show "read_field h p off_num_requested_components 8 =
           (case num_requested_components d of None \<Rightarrow> Inl (Undefined IndeterminateValue) | Some w \<Rightarrow> Inr w)"
    using read_field_deref[where ?'a = 64, OF d len(3)] by (simp only: object_repr_fields)
  show "read_field h p off_run_number 4 =
           (case run_number d of None \<Rightarrow> Inl (Undefined IndeterminateValue) | Some w \<Rightarrow> Inr w)"
    using read_field_deref[where ?'a = 32, OF d len(4)] by (simp only: object_repr_fields)
  show "read_field h p off_error_bits 4 =
           (case error_bits d of None \<Rightarrow> Inl (Undefined IndeterminateValue) | Some w \<Rightarrow> Inr w)"
    using read_field_deref[where ?'a = 32, OF d len(5)] by (simp only: object_repr_fields)
  show "read_field h p off_trigger_type 2 =
           (case trigger_type d of None \<Rightarrow> Inl (Undefined IndeterminateValue) | Some w \<Rightarrow> Inr w)"
    using read_field_deref[where ?'a = 16, OF d len(6)] by (simp only: object_repr_fields)
qed

subsection \<open>The constructors\<close>

lemma from_components_result:
  assumes wf: "\<forall>c\<in>set E. length c = esz"
    and fits: "sizeof_TriggerRecordHeaderData + length E * esz < 2 ^ 64"
    and room: "sizeof_TriggerRecordHeaderData + length E * esz \<le> avail h"
  shows "TriggerRecordHeader_from_components esz E h =
     (Inr \<lparr>data_arr = Some (length (blocks h)), alloc = True\<rparr>,
      h\<lparr>blocks := blocks h @
           [Some (object_repr (TriggerRecordHeaderData_default
                     \<lparr>num_requested_components := Some (of_nat (length E))\<rparr>) @ concat E)],
        avail := avail h - (sizeof_TriggerRecordHeaderData + length E * esz)\<rparr>)"
proof -
  let ?sz = "sizeof_TriggerRecordHeaderData + length E * esz"
  let ?b = "length (blocks h)"
  let ?hdr = "object_repr (TriggerRecordHeaderData_default
                     \<lparr>num_requested_components := Some (of_nat (length E))\<rparr>)"
  define h1 where "h1 = h\<lparr>blocks := blocks h @ [Some (replicate ?sz None)], avail := avail h - ?sz\<rparr>"
  define buf2 where "buf2 = ?hdr @ drop 48 (replicate ?sz None)"
  define h2 where "h2 = h1\<lparr>blocks := (blocks h1)[?b := Some buf2]\<rparr>"
  define h3 where "h3 = h2\<lparr>blocks := (blocks h2)[?b := Some (take sizeof_TriggerRecordHeaderData buf2 @ concat E
           @ drop (sizeof_TriggerRecordHeaderData + length E * esz) buf2)]\<rparr>"
  have m: "malloc (?sz mod 2 ^ 64) h = (Some ?b, h1)"
    using fits room by (simp add: malloc_def h1_def)
  have d1: "deref h1 (Some ?b) = Inr (replicate ?sz None)"
    by (simp add: deref_def h1_def)
  have s1: "store h1 (Some ?b) 0 ?hdr = Inr h2"
    using store_Inr[OF d1, of 0 ?hdr]
    by (simp add: length_object_repr sizeof_TriggerRecordHeaderData_def h2_def buf2_def)
  have l2: "length buf2 = ?sz"
    by (simp add: length_object_repr sizeof_TriggerRecordHeaderData_def buf2_def)
  have c: "copy_components esz h2 (Some ?b) sizeof_TriggerRecordHeaderData E = (Inr (), h3)"
    unfolding h3_def
    by (rule copy_components_Inr) (use wf l2 in \<open>simp_all add: h2_def h1_def\<close>)
  have t: "take sizeof_TriggerRecordHeaderData buf2 = ?hdr"
    by (simp add: length_object_repr sizeof_TriggerRecordHeaderData_def buf2_def)
  have d: "drop (sizeof_TriggerRecordHeaderData + length E * esz) buf2 = []"
    using l2 by simp
  have h3: "h3 = h\<lparr>blocks := blocks h @ [Some (?hdr @ concat E)], avail := avail h - ?sz\<rparr>"
    unfolding h3_def t d by (simp add: h2_def h1_def)
  have "TriggerRecordHeader_from_components esz E h =
      (Inr \<lparr>data_arr = Some ?b, alloc = True\<rparr>, h3)"
    unfolding TriggerRecordHeader_from_components_def Let_def m
    by (simp add: TriggerRecordHeader_init_def s1 c)
  then show ?thesis by (simp only: h3)
qed


lemma deref_append_new: "deref (h\<lparr>blocks := blocks h @ [Some buf], avail := a\<rparr>) (Some (length (blocks h))) = Inr buf"
  by (simp add: deref_def)

lemma deref_append_old:
  "deref h p = Inr buf \<Longrightarrow> deref (h\<lparr>blocks := blocks h @ [x], avail := a\<rparr>) p = Inr buf"
  by (auto simp: deref_def nth_append split: option.splits if_splits)

lemma at_deref:
  "deref h (data_arr t) = Inr buf \<Longrightarrow> read_field h (data_arr t) off_num_requested_components 8 = Inr (n :: 64 word) \<Longrightarrow>
   sizeof_TriggerRecordHeaderData + idx * esz + esz \<le> length buf \<Longrightarrow>
   at esz h t idx = Inr (take esz (drop (sizeof_TriggerRecordHeaderData + idx * esz) buf))"
  by (simp add: at_def load_Inr)

lemma total_size_unat:
  "unat (n * of_nat esz + of_nat k :: 64 word) = (k + unat n * esz) mod 2 ^ 64"
  by (simp add: unat_word_ariths unat_of_nat mod_simps) (simp only: add.commute)

lemma valid_instanceD:
  assumes "valid_instance esz h t"
  obtains buf n where "deref h (data_arr t) = Inr buf" "length buf < 2 ^ 64"
    "read_field h (data_arr t) off_num_requested_components 8 = Inr (n :: 64 word)"
    "sizeof_TriggerRecordHeaderData + unat n * esz \<le> length buf"
  using assms
  by (auto simp: valid_instance_def get_num_requested_components_def split: sum.splits)

lemma malloc_ok:
  "sz \<le> avail h \<Longrightarrow>
   malloc sz h = (Some (length (blocks h)),
                  h\<lparr>blocks := blocks h @ [Some (replicate sz None)], avail := avail h - sz\<rparr>)"
  by (simp add: malloc_def)

lemma malloc_fail: "\<not> sz \<le> avail h \<Longrightarrow> malloc sz h = (None, h)"
  by (simp add: malloc_def)

lemma store_null: "store h None off bs = Inl (Undefined NullPointer)"
  by (simp add: store_def deref_def)

lemma memcpy_new_block:
  assumes d: "deref h src = Inr buf"
  shows "n \<le> length buf \<Longrightarrow>
         memcpy (h\<lparr>blocks := blocks h @ [Some (replicate n None)], avail := a\<rparr>)
                (Some (length (blocks h))) src n =
         Inr (h\<lparr>blocks := blocks h @ [Some (take n buf)], avail := a\<rparr>)"
    and "length buf < n \<Longrightarrow>
         memcpy (h\<lparr>blocks := blocks h @ [Some (replicate n None)], avail := a\<rparr>)
                (Some (length (blocks h))) src n = Inl (Undefined OutOfBounds)"
proof -
  let ?h1 = "h\<lparr>blocks := blocks h @ [Some (replicate n None)], avail := a\<rparr>"
  have d1: "deref ?h1 src = Inr buf" by (rule deref_append_old[OF d])
  have d2: "deref ?h1 (Some (length (blocks h))) = Inr (replicate n None)"
    by (rule deref_append_new)
  show "memcpy ?h1 (Some (length (blocks h))) src n = Inl (Undefined OutOfBounds)"
    if "length buf < n"
    using that by (simp add: memcpy_def load_def d1)
  show "memcpy ?h1 (Some (length (blocks h))) src n =
         Inr (h\<lparr>blocks := blocks h @ [Some (take n buf)], avail := a\<rparr>)"
    if "n \<le> length buf"
    using that store_Inr[OF d2, of 0 "take n buf"]
    by (simp add: memcpy_def load_def d1)
qed

lemma from_buffer_copy_result:
  assumes d: "deref h p = Inr buf"
    and n: "read_field h p off_num_requested_components 8 = Inr (n :: 64 word)"
    and sz: "sz = unat (n * of_nat esz + of_nat sizeof_TriggerRecordHeaderData :: 64 word)"
  shows "sz \<le> avail h \<Longrightarrow> sz \<le> length buf \<Longrightarrow>
           TriggerRecordHeader_from_buffer esz p True h =
             (Inr \<lparr>data_arr = Some (length (blocks h)), alloc = True\<rparr>,
              h\<lparr>blocks := blocks h @ [Some (take sz buf)], avail := avail h - sz\<rparr>)"
    and "sz \<le> avail h \<Longrightarrow> length buf < sz \<Longrightarrow>
           TriggerRecordHeader_from_buffer esz p True h =
             (Inl (Undefined OutOfBounds),
              h\<lparr>blocks := blocks h @ [Some (replicate sz None)], avail := avail h - sz\<rparr>)"
    and "\<not> sz \<le> avail h \<Longrightarrow> sz \<le> length buf \<Longrightarrow>
           TriggerRecordHeader_from_buffer esz p True h = (Inl (Undefined NullPointer), h)"
proof -
  show "TriggerRecordHeader_from_buffer esz p True h =
             (Inr \<lparr>data_arr = Some (length (blocks h)), alloc = True\<rparr>,
              h\<lparr>blocks := blocks h @ [Some (take sz buf)], avail := avail h - sz\<rparr>)"
    if "sz \<le> avail h" "sz \<le> length buf"
    unfolding TriggerRecordHeader_from_buffer_def Let_def n
    by (simp add: sz[symmetric] malloc_ok[OF that(1)] memcpy_new_block(1)[OF d that(2)] TriggerRecordHeader_init_def)
  show "TriggerRecordHeader_from_buffer esz p True h =
             (Inl (Undefined OutOfBounds),
              h\<lparr>blocks := blocks h @ [Some (replicate sz None)], avail := avail h - sz\<rparr>)"
    if "sz \<le> avail h" "length buf < sz"
    unfolding TriggerRecordHeader_from_buffer_def Let_def n
    by (simp add: sz[symmetric] malloc_ok[OF that(1)] memcpy_new_block(2)[OF d that(2)] TriggerRecordHeader_init_def)
  show "TriggerRecordHeader_from_buffer esz p True h = (Inl (Undefined NullPointer), h)"
    if "\<not> sz \<le> avail h" "sz \<le> length buf"
    unfolding TriggerRecordHeader_from_buffer_def Let_def n
    using load_Inr[OF d, of 0 sz] that(2)
    by (simp add: sz[symmetric] malloc_fail[OF that(1)] TriggerRecordHeader_init_def memcpy_def
          store_null)
qed

lemma from_buffer_never_throws:
  "\<not> is_thrown (fst (TriggerRecordHeader_from_buffer esz p c h))"
  by (auto simp: TriggerRecordHeader_from_buffer_def Let_def read_field_def load_def store_def
        memcpy_def deref_def malloc_def
      split: sum.splits option.splits if_splits prod.splits)

subsection \<open>The example states\<close>

lemma deref_example:
  "deref example_heap (Some 0) = Inr (object_repr (example_header 1) @ concat example_components)"
  "deref truncated_heap (Some 0) = Inr (object_repr (example_header 1) @ [])"
  "deref exhausted_heap (Some 0) = Inr (object_repr (example_header 0) @ [])"
  by (simp_all add: deref_def example_heap_def truncated_heap_def exhausted_heap_def)

lemma example_header_sel:
  "trigger_number (example_header n) = Some 42"
  "trigger_timestamp (example_header n) = Some 1000"
  "num_requested_components (example_header n) = Some n"
  "run_number (example_header n) = Some 7"
  "error_bits (example_header n) = Some 5"
  "trigger_type (example_header n) = Some 3"
  by (simp_all add: example_header_def)

subsection \<open>Sizes and valid instances\<close>

lemma from_components_malloc_fail:
  "\<not> (sizeof_TriggerRecordHeaderData + length E * esz) mod 2 ^ 64 \<le> avail h \<Longrightarrow>
   TriggerRecordHeader_from_components esz E h = (Inl (Undefined NullPointer), h)"
  unfolding TriggerRecordHeader_from_components_def Let_def
  by (simp add: malloc_fail TriggerRecordHeader_init_def store_null)

lemma total_size_deref:
  "read_field h (data_arr t) off_num_requested_components 8 = Inr (n :: 64 word) \<Longrightarrow>
   get_total_size_bytes esz h t =
     Inr (unat (n * of_nat esz + of_nat sizeof_TriggerRecordHeaderData :: 64 word))"
  by (simp add: get_total_size_bytes_def)

lemma total_size_Inr:
  assumes "get_total_size_bytes esz h t = Inr sz"
  obtains n :: "64 word" where
    "read_field h (data_arr t) off_num_requested_components 8 = Inr n"
    "sz = unat (n * of_nat esz + of_nat sizeof_TriggerRecordHeaderData :: 64 word)"
  using assms by (auto simp: get_total_size_bytes_def split: sum.splits)

lemma valid_instance_size:
  assumes v: "valid_instance esz h t"
    and t: "get_total_size_bytes esz h t = Inr sz"
  obtains buf and n :: "64 word" where
    "deref h (data_arr t) = Inr buf"
    "read_field h (data_arr t) off_num_requested_components 8 = Inr n"
    "sz = unat (n * of_nat esz + of_nat sizeof_TriggerRecordHeaderData :: 64 word)"
    "sz = sizeof_TriggerRecordHeaderData + unat n * esz"
    "sz \<le> length buf"
proof -
  from v obtain buf and n :: "64 word" where
    d: "deref h (data_arr t) = Inr buf" and l: "length buf < 2 ^ 64"
    and n: "read_field h (data_arr t) off_num_requested_components 8 = Inr n"
    and fit: "sizeof_TriggerRecordHeaderData + unat n * esz \<le> length buf"
    by (rule valid_instanceD)
  from t n have sz: "sz = unat (n * of_nat esz + of_nat sizeof_TriggerRecordHeaderData :: 64 word)"
    by (simp add: get_total_size_bytes_def)
  from fit l have "sizeof_TriggerRecordHeaderData + unat n * esz < 2 ^ 64" by linarith
  then have sz': "sz = sizeof_TriggerRecordHeaderData + unat n * esz"
    unfolding sz total_size_unat by simp
  show thesis
    by (rule that[OF d n sz sz']) (use fit sz' in simp)
qed

lemma load_take:
  assumes a: "deref hA pA = Inr (take sz buf)" and b: "deref hB pB = Inr buf"
    and sz: "sz \<le> length buf" and fit: "off + k \<le> sz"
  shows "load hA pA off k = load hB pB off k" and "load hB pB off k = Inr (take k (drop off buf))"
proof -
  have "min k (sz - off) = k" using fit by simp
  then have "take k (drop off (take sz buf)) = take k (drop off buf)"
    by (simp add: drop_take)
  then show "load hA pA off k = load hB pB off k"
    using sz fit by (simp add: load_def a b)
  show "load hB pB off k = Inr (take k (drop off buf))"
    using sz fit by (simp add: load_def b)
qed

lemma read_field_take:
  assumes a: "deref hA pA = Inr (take sz buf)" and b: "deref hB pB = Inr buf"
    and sz: "sz \<le> length buf" and fit: "off + k \<le> sz"
  shows "read_field hA pA off k = read_field hB pB off k"
  by (simp add: read_field_def load_take(1)[OF a b sz fit])

lemma valid_example: "valid_instance 4 example_heap borrowed0"
proof -
  have d: "deref example_heap (data_arr borrowed0) =
      Inr (object_repr (example_header 1) @ concat example_components)"
    using deref_example(1) by (simp add: borrowed0_def)
  have n: "read_field example_heap (data_arr borrowed0) off_num_requested_components 8 = Inr (1 :: 64 word)"
    by (simp add: read_field_object_repr(3)[OF d] example_header_sel)
  show ?thesis
    by (simp add: valid_instance_def d get_num_requested_components_def n length_object_repr
          sizeof_TriggerRecordHeaderData_def example_components_def)
qed

lemma example_reads:
  "get_num_requested_components example_heap borrowed0 = Inr 1"
  "get_total_size_bytes 4 example_heap borrowed0 = Inr 52"
  "get_error_bits example_heap borrowed0 = Inr 5"
  "get_trigger_number example_heap borrowed0 = Inr 42"
  "get_run_number example_heap borrowed0 = Inr 7"
proof -
  have d: "deref example_heap (data_arr borrowed0) =
      Inr (object_repr (example_header 1) @ concat example_components)"
    using deref_example(1) by (simp add: borrowed0_def)
  show "get_num_requested_components example_heap borrowed0 = Inr 1"
    by (simp add: get_num_requested_components_def read_field_object_repr(3)[OF d] example_header_sel)
  show "get_total_size_bytes 4 example_heap borrowed0 = Inr 52"
    by (simp add: get_total_size_bytes_def read_field_object_repr(3)[OF d] example_header_sel
          sizeof_TriggerRecordHeaderData_def)
  show "get_error_bits example_heap borrowed0 = Inr 5"
    by (simp add: get_error_bits_def read_field_object_repr(5)[OF d] example_header_sel)
  show "get_trigger_number example_heap borrowed0 = Inr 42"
    by (simp add: get_trigger_number_def read_field_object_repr(1)[OF d] example_header_sel)
  show "get_run_number example_heap borrowed0 = Inr 7"
    by (simp add: get_run_number_def read_field_object_repr(4)[OF d] example_header_sel)
qed

subsection \<open>Two instances on different blocks\<close>

lemma store_other:
  assumes s: "store h p off bs = Inr h''" and q: "q \<noteq> p"
  shows "deref h'' q = deref h q"
proof (cases p)
  case None
  with s show ?thesis by (simp add: store_null)
next
  case (Some b)
  with s obtain x where "h'' = h\<lparr>blocks := (blocks h)[b := x]\<rparr>"
    by (auto simp: store_def split: sum.splits if_splits)
  with q Some show ?thesis by (simp add: deref_blocks_update_other)
qed

lemma mutate_store:
  "mutate esz m t h = Inr h'' \<Longrightarrow> \<exists>off bs. store h (data_arr t) off bs = Inr h''"
proof (cases m)
  case (Set_error_bit b v)
  assume "mutate esz m t h = Inr h''"
  with Set_error_bit show ?thesis
    by (auto simp: set_error_bits_def set_error_bit_def write_field_def
          split: sum.splits if_splits)
next
  case (Assign_element idx c)
  assume "mutate esz m t h = Inr h''"
  with Assign_element
  have "store h (data_arr t) (sizeof_TriggerRecordHeaderData + idx * esz) (take esz c) = Inr h''"
    by (auto simp: subscript_def ref_assign_def split: sum.splits if_splits)
  then show ?thesis by blast
qed (auto simp: set_trigger_number_def set_trigger_timestamp_def set_run_number_def
        set_error_bits_def set_trigger_type_def write_field_def)

lemma mutate_other:
  "mutate esz m t h = Inr h'' \<Longrightarrow> q \<noteq> data_arr t \<Longrightarrow> deref h'' q = deref h q"
  using mutate_store store_other by blast

lemma observers_cong:
  assumes "deref hA (data_arr t) = deref hB (data_arr t)"
  shows "get_header hA t = get_header hB t"
    and "at esz hA t i = at esz hB t i"
    and "get_total_size_bytes esz hA t = get_total_size_bytes esz hB t"
    and "get_num_requested_components hA t = get_num_requested_components hB t"
proof -
  have l: "load hA (data_arr t) = load hB (data_arr t)"
    using assms by (simp add: load_def fun_eq_iff)
  show "get_header hA t = get_header hB t"
    and "at esz hA t i = at esz hB t i"
    and "get_total_size_bytes esz hA t = get_total_size_bytes esz hB t"
    and "get_num_requested_components hA t = get_num_requested_components hB t"
    unfolding get_header_def at_def get_total_size_bytes_def
          get_num_requested_components_def read_field_def l
    by (rule refl)+
qed

lemma free_other:
  "free p h = Inr h'' \<Longrightarrow> q \<noteq> p \<Longrightarrow> deref h'' q = deref h q"
  by (cases p; cases q)
     (auto simp: free_def deref_def nth_list_update split: option.splits if_splits)

lemma free_live: "deref h p = Inr buf \<Longrightarrow> \<not> isl (free p h)"
  by (cases p) (auto simp: free_def deref_def split: option.splits if_splits)

lemma free_released:
  "deref h p = Inr buf \<Longrightarrow> free p h = Inr h'' \<Longrightarrow> deref h'' p = Inl (Undefined InvalidPointer)"
  by (cases p) (auto simp: free_def deref_def split: option.splits if_splits)

lemma destroy_other:
  "TriggerRecordHeader_destroy t h = Inr h'' \<Longrightarrow> q \<noteq> data_arr t \<Longrightarrow> deref h'' q = deref h q"
  by (auto simp: TriggerRecordHeader_destroy_def free_other split: if_splits)

lemma destroy_live:
  "deref h (data_arr t) = Inr buf \<Longrightarrow> \<not> isl (TriggerRecordHeader_destroy t h)"
  by (simp add: TriggerRecordHeader_destroy_def free_live)

lemma deep_copy_post:
  assumes d: "deref h (data_arr src) = Inr buf"
    and c: "cpy = \<lparr>data_arr = Some (length (blocks h)), alloc = True\<rparr>"
    and h': "h' = h\<lparr>blocks := blocks h @ [Some (take sz buf)], avail := a\<rparr>"
  shows "alloc cpy
       \<and> deref h (data_arr cpy) = Inl (Undefined InvalidPointer)
       \<and> deref h' (data_arr cpy) = map_sum id (take sz) (deref h (data_arr src))
       \<and> \<not> isl (deref h' (data_arr cpy))
       \<and> deref h' (data_arr src) = deref h (data_arr src)
       \<and> (case mutate esz m cpy h' of
             Inl f \<Rightarrow> True
           | Inr h'' \<Rightarrow>
               deref h'' (data_arr src) = deref h (data_arr src)
             \<and> get_header h'' src = get_header h src
             \<and> at esz h'' src i = at esz h src i)
       \<and> (case TriggerRecordHeader_destroy cpy h' of
             Inl f \<Rightarrow> False
           | Inr h'' \<Rightarrow>
               deref h'' (data_arr src) = deref h (data_arr src)
             \<and> \<not> isl (TriggerRecordHeader_destroy src h''))
       \<and> (case TriggerRecordHeader_destroy src h' of
             Inl f \<Rightarrow> False
           | Inr h'' \<Rightarrow>
               deref h'' (data_arr cpy) = deref h' (data_arr cpy)
             \<and> \<not> isl (TriggerRecordHeader_destroy cpy h''))"
proof -
  have p1: "alloc cpy" by (simp add: c)
  have p2: "deref h (data_arr cpy) = Inl (Undefined InvalidPointer)"
    by (simp add: c deref_def)
  have dc: "deref h' (data_arr cpy) = Inr (take sz buf)"
    by (simp add: c h' deref_append_new)
  have ds: "deref h' (data_arr src) = Inr buf"
    unfolding h' by (rule deref_append_old[OF d])
  have ne: "data_arr src \<noteq> data_arr cpy"
  proof
    assume "data_arr src = data_arr cpy"
    with d p2 show False by simp
  qed
  have p6: "deref h'' (data_arr src) = deref h (data_arr src)
             \<and> get_header h'' src = get_header h src
             \<and> at esz h'' src i = at esz h src i"
    if "mutate esz m cpy h' = Inr h''" for h''
  proof -
    have e: "deref h'' (data_arr src) = deref h (data_arr src)"
      using mutate_other[OF that ne] ds d by simp
    from e observers_cong(1)[OF e] observers_cong(2)[OF e] show ?thesis by (intro conjI)
  qed
  have p7: "deref h'' (data_arr src) = deref h (data_arr src)
             \<and> \<not> isl (TriggerRecordHeader_destroy src h'')"
    if "TriggerRecordHeader_destroy cpy h' = Inr h''" for h''
  proof -
    have e: "deref h'' (data_arr src) = Inr buf"
      using destroy_other[OF that ne] ds by simp
    from e d destroy_live[OF e] show ?thesis by simp
  qed
  have p8: "deref h'' (data_arr cpy) = deref h' (data_arr cpy)
             \<and> \<not> isl (TriggerRecordHeader_destroy cpy h'')"
    if "TriggerRecordHeader_destroy src h' = Inr h''" for h''
  proof -
    have e: "deref h'' (data_arr cpy) = Inr (take sz buf)"
      using destroy_other[OF that ne[symmetric]] dc by simp
    from e dc destroy_live[OF e] show ?thesis by simp
  qed
  have ok7: "\<not> isl (TriggerRecordHeader_destroy cpy h')" by (rule destroy_live[OF dc])
  have ok8: "\<not> isl (TriggerRecordHeader_destroy src h')" by (rule destroy_live[OF ds])
  have p3: "deref h' (data_arr cpy) = map_sum id (take sz) (deref h (data_arr src))"
    by (simp add: dc d)
  have p4: "\<not> isl (deref h' (data_arr cpy))" by (simp add: dc)
  have p5: "deref h' (data_arr src) = deref h (data_arr src)" by (simp add: ds d)
  have c6: "case mutate esz m cpy h' of
             Inl f \<Rightarrow> True
           | Inr h'' \<Rightarrow>
               deref h'' (data_arr src) = deref h (data_arr src)
             \<and> get_header h'' src = get_header h src
             \<and> at esz h'' src i = at esz h src i"
    by (cases "mutate esz m cpy h'") (simp_all add: p6)
  have c7: "case TriggerRecordHeader_destroy cpy h' of
             Inl f \<Rightarrow> False
           | Inr h'' \<Rightarrow>
               deref h'' (data_arr src) = deref h (data_arr src)
             \<and> \<not> isl (TriggerRecordHeader_destroy src h'')"
    using ok7 by (cases "TriggerRecordHeader_destroy cpy h'") (simp_all add: p7)
  have c8: "case TriggerRecordHeader_destroy src h' of
             Inl f \<Rightarrow> False
           | Inr h'' \<Rightarrow>
               deref h'' (data_arr cpy) = deref h' (data_arr cpy)
             \<and> \<not> isl (TriggerRecordHeader_destroy cpy h'')"
    using ok8 by (cases "TriggerRecordHeader_destroy src h'") (simp_all add: p8)
  from p1 p2 p3 p4 p5 c6 c7 c8 show ?thesis by (intro conjI)
qed


lemma copy_assign_result:
  assumes ne: "this \<noteq> other"
    and d: "deref h (data_arr (objs other)) = Inr buf"
    and n: "read_field h (data_arr (objs other)) off_num_requested_components 8 = Inr (n :: 64 word)"
    and sz: "sz = unat (n * of_nat esz + of_nat sizeof_TriggerRecordHeaderData :: 64 word)"
    and room: "sz \<le> avail h" and fit: "sz \<le> length buf"
  shows "copy_assign esz this other (objs, h) =
           (Inr (),
            objs(this := \<lparr>data_arr = Some (length (blocks h)), alloc = True\<rparr>),
            h\<lparr>blocks := blocks h @ [Some (take sz buf)], avail := avail h - sz\<rparr>)"
proof -
  define h1 where "h1 = h\<lparr>blocks := blocks h @ [Some (replicate sz None)], avail := avail h - sz\<rparr>"
  have t: "get_total_size_bytes esz h (objs other) = Inr sz"
    by (simp add: get_total_size_bytes_def n sz)
  have m: "malloc sz h = (Some (length (blocks h)), h1)"
    unfolding h1_def by (rule malloc_ok[OF room])
  have d1: "deref h1 (data_arr (objs other)) = deref h (data_arr (objs other))"
    unfolding h1_def using deref_append_old[OF d] d by simp
  have t1: "get_total_size_bytes esz h1 (objs other) = Inr sz"
    using observers_cong(3)[OF d1] t by simp
  have c: "memcpy h1 (Some (length (blocks h))) (data_arr (objs other)) sz =
      Inr (h\<lparr>blocks := blocks h @ [Some (take sz buf)], avail := avail h - sz\<rparr>)"
    unfolding h1_def by (rule memcpy_new_block(1)[OF d fit])
  have u: "(objs this)\<lparr>data_arr := Some (length (blocks h)), alloc := True\<rparr> =
      \<lparr>data_arr = Some (length (blocks h)), alloc = True\<rparr>"
    by (cases "objs this") simp
  show ?thesis
    using ne by (simp add: copy_assign_def Let_def t m t1 c u)
qed

subsection \<open>Writing a member and reading it back\<close>

lemma splice_length:
  "a + length bs \<le> length buf \<Longrightarrow> length (take a buf @ bs @ drop (a + length bs) buf) = length buf"
  by simp

lemma splice_read_at:
  "a + length bs \<le> length buf \<Longrightarrow>
   take (length bs) (drop a (take a buf @ bs @ drop (a + length bs) buf)) = bs"
  by simp

lemma splice_read_before:
  assumes "a + length bs \<le> length buf" "off + k \<le> a"
  shows "take k (drop off (take a buf @ bs @ drop (a + length bs) buf)) = take k (drop off buf)"
proof -
  have "min k (a - off) = k" using assms by simp
  then show ?thesis using assms by (simp add: drop_take)
qed

lemma splice_read_after:
  assumes "a + length bs \<le> length buf" "a + length bs \<le> off"
  shows "take k (drop off (take a buf @ bs @ drop (a + length bs) buf)) = take k (drop off buf)"
proof -
  have "off - a - length bs + (a + length bs) = off" using assms by simp
  then show ?thesis using assms by simp
qed

lemma store_Inr_iff:
  "store h p a bs = Inr h'' \<longleftrightarrow>
     (\<exists>b buf. p = Some b \<and> deref h p = Inr buf \<and> a + length bs \<le> length buf \<and>
        h'' = h\<lparr>blocks := (blocks h)[b := Some (take a buf @ bs @ drop (a + length bs) buf)]\<rparr>)"
  by (cases p) (auto simp: store_def deref_def split: sum.splits option.splits if_splits)

lemma store_deref:
  assumes "store h p a bs = Inr h''" "deref h p = Inr buf"
  shows "deref h'' p = Inr (take a buf @ bs @ drop (a + length bs) buf)"
    and "a + length bs \<le> length buf"
proof -
  from assms obtain b where p: "p = Some b" and fit: "a + length bs \<le> length buf"
    and h'': "h'' = h\<lparr>blocks := (blocks h)[b := Some (take a buf @ bs @ drop (a + length bs) buf)]\<rparr>"
    by (auto simp: store_Inr_iff)
  from assms(2) p have "b < length (blocks h)" by (simp add: deref_Inr_iff)
  then show "deref h'' p = Inr (take a buf @ bs @ drop (a + length bs) buf)"
    unfolding h'' p by (rule deref_blocks_update_same)
  show "a + length bs \<le> length buf" by (rule fit)
qed

lemma store_ok:
  "deref h p = Inr buf \<Longrightarrow> a + length bs \<le> length buf \<Longrightarrow> \<not> isl (store h p a bs)"
  by (simp add: store_def)

lemma store_load_same:
  assumes s: "store h p a bs = Inr h''"
  shows "load h'' p a (length bs) = Inr bs"
proof -
  from s obtain buf where d: "deref h p = Inr buf"
    by (auto simp: store_Inr_iff)
  note sd = store_deref[OF s d]
  show ?thesis
    using sd(2) by (simp add: load_def sd(1))
qed

lemma store_load_other:
  assumes s: "store h p a bs = Inr h''"
    and o: "off + k \<le> a \<or> a + length bs \<le> off"
  shows "load h'' p off k = load h p off k"
proof -
  from s obtain buf where d: "deref h p = Inr buf"
    by (auto simp: store_Inr_iff)
  note sd = store_deref[OF s d]
  have l: "length (take a buf @ bs @ drop (a + length bs) buf) = length buf"
    by (rule splice_length[OF sd(2)])
  have "take k (drop off (take a buf @ bs @ drop (a + length bs) buf)) = take k (drop off buf)"
    using o splice_read_before[OF sd(2)] splice_read_after[OF sd(2)] by blast
  then show ?thesis
    unfolding load_def sd(1) d sum.case l by simp
qed

lemma write_read_field:
  assumes w: "write_field h p off n (w :: 'a::len word) = Inr h''"
    and n: "0 < n" "LENGTH('a) \<le> 8 * n"
  shows "read_field h'' p off n = Inr w"
proof -
  have "load h'' p off (length (field_bytes n (Some w))) = Inr (field_bytes n (Some w))"
    using w unfolding write_field_def by (rule store_load_same)
  then show ?thesis
    using n by (simp add: read_field_def length_field_bytes field_value_field_bytes)
qed

lemma write_read_other:
  assumes w: "write_field h p a n (w :: 'a::len word) = Inr h''"
    and o: "off + k \<le> a \<or> a + n \<le> off"
  shows "read_field h'' p off k = read_field h p off k"
    and "load h'' p off k = load h p off k"
proof -
  have s: "store h p a (field_bytes n (Some w)) = Inr h''"
    using w by (simp add: write_field_def)
  have o': "off + k \<le> a \<or> a + length (field_bytes n (Some w)) \<le> off"
    using o by (simp add: length_field_bytes)
  show l: "load h'' p off k = load h p off k"
    by (rule store_load_other[OF s o'])
  show "read_field h'' p off k = read_field h p off k"
    unfolding read_field_def l by (rule refl)
qed

lemma write_field_ok:
  "deref h p = Inr buf \<Longrightarrow> a + n \<le> length buf \<Longrightarrow> \<not> isl (write_field h p a n w)"
  by (simp add: write_field_def store_ok length_field_bytes)

lemma read_field_Inr_fits:
  assumes "read_field h p off n = Inr w"
  obtains buf where "deref h p = Inr buf" "off + n \<le> length buf"
  using assms by (auto simp: read_field_def load_def split: sum.splits if_splits)



lemma struct_value_take:
  "struct_value (take sizeof_TriggerRecordHeaderData buf) = struct_value buf"
  by (simp add: struct_value_def off_defs drop_take)

lemma get_header_deref:
  "deref h (data_arr t) = Inr buf \<Longrightarrow>
   get_header h t =
     (if sizeof_TriggerRecordHeaderData \<le> length buf then Inr (struct_value buf)
      else Inl (Undefined OutOfBounds))"
  by (simp add: get_header_def load_def struct_value_take)

lemma struct_value_splice_error_bits:
  assumes "length bs = 4" "40 \<le> length X"
  shows "struct_value (take 36 X @ bs @ drop 40 X) = (struct_value X)\<lparr>error_bits := field_value bs\<rparr>"
  using assms by (simp add: struct_value_def off_defs drop_take)

lemma bit_update_32:
  fixes w :: "32 word"
  assumes "k < 32"
  shows "bit (if v then set_bit k w else unset_bit k w) k = v"
    and "j \<noteq> k \<Longrightarrow> bit (if v then set_bit k w else unset_bit k w) j = bit w j"
  using assms by (auto simp: bit_simps)

lemma free_result:
  assumes d: "deref h p = Inr buf"
  shows "case free p h of
           Inl f \<Rightarrow> False
         | Inr h'' \<Rightarrow>
             deref h'' q = (if q = p then Inl (Undefined InvalidPointer) else deref h q)
           \<and> avail h'' = avail h + length buf"
proof (cases "free p h")
  case (Inl f)
  with free_live[OF d] show ?thesis by simp
next
  case (Inr h'')
  have a: "avail h'' = avail h + length buf"
    using d Inr by (cases p) (auto simp: free_def deref_def split: option.splits if_splits)
  show ?thesis
    using free_released[OF d Inr] free_other[OF Inr, of q] a by (simp add: Inr)
qed

section \<open>Properties of GeoID\<close>

text \<open>
  C8: \<open>operator<\<close> of \<open>GeoID\<close> is the strict lexicographic order on
  \<open>(apa_number, link_number)\<close>; it is irreflexive, transitive and total on distinct
  values; \<open>GeoID{1,5} < GeoID{1,6}\<close>, \<open>GeoID{1,6} < GeoID{2,0}\<close>, and \<open>GeoID{3,1}\<close> is not
  less than \<open>GeoID{3,1}\<close>.
\<close>

theorem GeoID_less_strict_total_order:
  "(GeoID_less a b \<longleftrightarrow>
      apa_number a < apa_number b \<or> (apa_number a = apa_number b \<and> link_number a < link_number b))
   \<and> \<not> GeoID_less a a
   \<and> (GeoID_less a b \<and> GeoID_less b c \<longrightarrow> GeoID_less a c)
   \<and> (a \<noteq> b \<longrightarrow> GeoID_less a b \<or> GeoID_less b a)
   \<and> GeoID_less \<lparr>apa_number = 1, link_number = 5\<rparr> \<lparr>apa_number = 1, link_number = 6\<rparr>
   \<and> GeoID_less \<lparr>apa_number = 1, link_number = 6\<rparr> \<lparr>apa_number = 2, link_number = 0\<rparr>
   \<and> \<not> GeoID_less \<lparr>apa_number = 3, link_number = 1\<rparr> \<lparr>apa_number = 3, link_number = 1\<rparr>"
  by (cases a; cases b; cases c) (auto simp: GeoID_less_def tuple_less_def)

theorem GeoID_less_strict_total_order_witness:
  "GeoID_less \<lparr>apa_number = 1, link_number = 5\<rparr> \<lparr>apa_number = 1, link_number = 6\<rparr>
   \<and> GeoID_less \<lparr>apa_number = 1, link_number = 6\<rparr> \<lparr>apa_number = 2, link_number = 0\<rparr>
   \<and> GeoID_less \<lparr>apa_number = 1, link_number = 5\<rparr> \<lparr>apa_number = 2, link_number = 0\<rparr>
   \<and> \<lparr>apa_number = 2, link_number = 0\<rparr> \<noteq> \<lparr>apa_number = 1, link_number = (5::32 word)\<rparr>
   \<and> (GeoID_less \<lparr>apa_number = 2, link_number = 0\<rparr> \<lparr>apa_number = 1, link_number = 5\<rparr>
        \<or> GeoID_less \<lparr>apa_number = 1, link_number = 5\<rparr> \<lparr>apa_number = 2, link_number = 0\<rparr>)"
  using GeoID_less_strict_total_order
          [of "\<lparr>apa_number = 1, link_number = 5\<rparr>" "\<lparr>apa_number = 1, link_number = 6\<rparr>"
              "\<lparr>apa_number = 2, link_number = 0\<rparr>"]
        GeoID_less_strict_total_order
          [of "\<lparr>apa_number = 2, link_number = 0\<rparr>" "\<lparr>apa_number = 1, link_number = 5\<rparr>"
              "\<lparr>apa_number = 2, link_number = 0\<rparr>"]
  by simp

section \<open>Properties of TriggerRecordHeader\<close>

text \<open>
  C1: for every vector \<open>E\<close> of \<open>n\<close> components, the empty one included, the constructor
  succeeds with an owning record that reports \<open>n\<close> requested components, and \<open>at(i)\<close>
  returns \<open>E[i]\<close> for every \<open>i < n\<close>, in the order supplied. The allocation is assumed
  to succeed and the byte size to fit \<open>size_t\<close>.
\<close>

theorem build_from_elements_count_and_order:
  assumes wf: "\<forall>c\<in>set E. length c = esz"
    and pos: "0 < esz"
    and fits: "sizeof_TriggerRecordHeaderData + length E * esz < 2 ^ 64"
    and room: "sizeof_TriggerRecordHeaderData + length E * esz \<le> avail h"
  shows "case TriggerRecordHeader_from_components esz E h of
           (Inr t, h') \<Rightarrow>
              alloc t \<and>
              get_num_requested_components h' t = Inr (of_nat (length E)) \<and>
              unat (of_nat (length E) :: 64 word) = length E \<and>
              (i < length E \<longrightarrow> at esz h' t i = Inr (E ! i))
         | (Inl f, h') \<Rightarrow> False"
proof -
  let ?hdr = "TriggerRecordHeaderData_default\<lparr>num_requested_components := Some (of_nat (length E))\<rparr>"
  let ?buf = "object_repr ?hdr @ concat E"
  define h' where "h' = h\<lparr>blocks := blocks h @ [Some ?buf],
        avail := avail h - (sizeof_TriggerRecordHeaderData + length E * esz)\<rparr>"
  define t where "t = \<lparr>data_arr = Some (length (blocks h)), alloc = True\<rparr>"
  have r: "TriggerRecordHeader_from_components esz E h = (Inr t, h')"
    unfolding h'_def t_def by (rule from_components_result[OF wf fits room])
  have d: "deref h' (data_arr t) = Inr ?buf"
    unfolding h'_def t_def by (simp add: deref_append_new)
  have lc: "length (concat E) = length E * esz"
    using wf by (induction E) simp_all
  have n: "read_field h' (data_arr t) off_num_requested_components 8 = Inr (of_nat (length E) :: 64 word)"
    by (simp add: read_field_object_repr(3)[OF d])
  have c: "get_num_requested_components h' t = Inr (of_nat (length E))"
    by (simp add: get_num_requested_components_def n)
  have "length E \<le> length E * esz" using pos by simp
  with fits have "length E < 2 ^ 64" by linarith
  then have u: "unat (of_nat (length E) :: 64 word) = length E"
    by (simp add: unat_of_nat)
  have a: "i < length E \<longrightarrow> at esz h' t i = Inr (E ! i)"
  proof
    assume i: "i < length E"
    then have "Suc i * esz \<le> length E * esz" by (intro mult_le_mono) simp_all
    then have fit: "sizeof_TriggerRecordHeaderData + i * esz + esz \<le> length ?buf"
      by (simp add: length_object_repr lc sizeof_TriggerRecordHeaderData_def)
    show "at esz h' t i = Inr (E ! i)"
      by (subst at_deref[OF d n fit])
         (simp add: length_object_repr sizeof_TriggerRecordHeaderData_def take_drop_concat[OF wf i])
  qed
  have al: "alloc t" by (simp add: t_def)
  from al c u a show ?thesis
    unfolding r prod.case sum.case by (intro conjI)
qed

theorem build_from_elements_count_and_order_witness:
  "length [Some 1, Some (2 :: byte)] = 2 \<and> length [Some 3, None :: mbyte] = 2
   \<and> sizeof_TriggerRecordHeaderData + length [[Some 1, Some 2], [Some 3, None :: mbyte]] * 2
        \<le> avail \<lparr>blocks = [], avail = 100\<rparr>
   \<and> (case TriggerRecordHeader_from_components 2 [[Some 1, Some 2], [Some 3, None]]
              \<lparr>blocks = [], avail = 100\<rparr> of
         (Inr t, h') \<Rightarrow>
            alloc t \<and>
            get_num_requested_components h' t = Inr 2 \<and>
            at 2 h' t 0 = Inr [Some 1, Some 2] \<and>
            at 2 h' t 1 = Inr [Some 3, None]
       | (Inl f, h') \<Rightarrow> False)
   \<and> sizeof_TriggerRecordHeaderData + length ([] :: ComponentRequest list) * 2
        \<le> avail \<lparr>blocks = [], avail = 100\<rparr>
   \<and> (case TriggerRecordHeader_from_components 2 [] \<lparr>blocks = [], avail = 100\<rparr> of
         (Inr t, h') \<Rightarrow> alloc t \<and> get_num_requested_components h' t = Inr 0
       | (Inl f, h') \<Rightarrow> False)"
proof -
  let ?E = "[[Some 1, Some 2], [Some 3, None :: mbyte]]"
  let ?h = "\<lparr>blocks = [], avail = 100\<rparr>"
  have wf: "\<forall>c\<in>set ?E. length c = 2" by simp
  have wf0: "\<forall>c\<in>set ([] :: ComponentRequest list). length c = 2" by simp
  have pos: "0 < (2 :: nat)" by simp
  have fits: "sizeof_TriggerRecordHeaderData + length ?E * 2 < 2 ^ 64"
    and fits0: "sizeof_TriggerRecordHeaderData + length ([] :: ComponentRequest list) * 2 < 2 ^ 64"
    by (simp_all add: sizeof_TriggerRecordHeaderData_def)
  have room: "sizeof_TriggerRecordHeaderData + length ?E * 2 \<le> avail ?h"
    and room0: "sizeof_TriggerRecordHeaderData + length ([] :: ComponentRequest list) * 2 \<le> avail ?h"
    by (simp_all add: sizeof_TriggerRecordHeaderData_def)
  note th0 = build_from_elements_count_and_order[where i = 0, OF wf pos fits room]
  note th1 = build_from_elements_count_and_order[where i = 1, OF wf pos fits room]
  note thE = build_from_elements_count_and_order[where i = 0, OF wf0 pos fits0 room0]
  obtain r h' where R: "TriggerRecordHeader_from_components 2 ?E ?h = (r, h')"
    by (cases "TriggerRecordHeader_from_components 2 ?E ?h")
  obtain r0 h0 where R0: "TriggerRecordHeader_from_components 2 [] ?h = (r0, h0)"
    by (cases "TriggerRecordHeader_from_components 2 [] ?h")
  have A: "case TriggerRecordHeader_from_components 2 ?E ?h of
         (Inr t, h') \<Rightarrow>
            alloc t \<and>
            get_num_requested_components h' t = Inr 2 \<and>
            at 2 h' t 0 = Inr [Some 1, Some 2] \<and>
            at 2 h' t 1 = Inr [Some 3, None]
       | (Inl f, h') \<Rightarrow> False"
    using th0 th1 unfolding R by (cases r) simp_all
  have B: "case TriggerRecordHeader_from_components 2 [] ?h of
         (Inr t, h') \<Rightarrow> alloc t \<and> get_num_requested_components h' t = Inr 0
       | (Inl f, h') \<Rightarrow> False"
    using thE unfolding R0 by (cases r0) simp_all
  have l: "length [Some 1, Some (2 :: byte)] = 2 \<and> length [Some 3, None :: mbyte] = 2" by simp
  from l room A room0 B show ?thesis by (intro conjI) simp_all
qed

text \<open>
  A buffer cut after its header, whose header counts one component of four bytes: the
  constructor allocates 52 bytes, then the copy runs past the end of the buffer. Nothing
  is thrown, and the heap has one block more than before.
\<close>

theorem wrap_external_truncated_counterexample:
  "length (object_repr (example_header 1)) < sizeof_TriggerRecordHeaderData + 1 * 4
   \<and> deref truncated_heap (Some 0) = Inr (object_repr (example_header 1))
   \<and> get_num_requested_components truncated_heap borrowed0 = Inr 1
   \<and> fst (TriggerRecordHeader_from_buffer 4 (Some 0) True truncated_heap) = Inl (Undefined OutOfBounds)
   \<and> \<not> is_thrown (fst (TriggerRecordHeader_from_buffer 4 (Some 0) True truncated_heap))
   \<and> length (blocks (snd (TriggerRecordHeader_from_buffer 4 (Some 0) True truncated_heap)))
       = Suc (length (blocks truncated_heap))"
proof -
  have n: "read_field truncated_heap (Some 0) off_num_requested_components 8 = Inr (1 :: 64 word)"
    by (simp add: read_field_object_repr(3)[OF deref_example(2)] example_header_sel)
  have r: "TriggerRecordHeader_from_buffer 4 (Some 0) True truncated_heap =
             (Inl (Undefined OutOfBounds),
              truncated_heap\<lparr>blocks := blocks truncated_heap @ [Some (replicate 52 None)],
                 avail := avail truncated_heap - 52\<rparr>)"
    by (rule from_buffer_copy_result(2)[OF deref_example(2) n])
       (simp_all add: sizeof_TriggerRecordHeaderData_def length_object_repr truncated_heap_def)
  show ?thesis
    using deref_example(2) n
    by (simp add: r length_object_repr sizeof_TriggerRecordHeaderData_def
          get_num_requested_components_def borrowed0_def)
qed


text \<open>
  C3, as the code has it: the constructor takes no buffer length, so with
  \<open>copy_from_buffer = true\<close> it makes no truncation check and throws nothing. It reads the
  count, allocates the size the count implies and copies that many bytes: a buffer of at
  least that size gives an owning copy of its first \<open>sz\<close> bytes; on a smaller buffer
  the allocation has been made when the copy leaves the buffer, which is undefined.
\<close>

theorem wrap_external_copy_makes_no_size_check:
  assumes d: "deref h p = Inr buf"
    and t: "get_total_size_bytes esz h \<lparr>data_arr = p, alloc = False\<rparr> = Inr sz"
    and room: "sz \<le> avail h"
  shows "\<not> is_thrown (fst (TriggerRecordHeader_from_buffer esz p True h)) \<and>
         TriggerRecordHeader_from_buffer esz p True h =
           (if sz \<le> length buf
            then (Inr \<lparr>data_arr = Some (length (blocks h)), alloc = True\<rparr>,
                  h\<lparr>blocks := blocks h @ [Some (take sz buf)], avail := avail h - sz\<rparr>)
            else (Inl (Undefined OutOfBounds), snd (malloc sz h)))"
proof -
  from t obtain n :: "64 word" where
    n: "read_field h p off_num_requested_components 8 = Inr n"
    and sz: "sz = unat (n * of_nat esz + of_nat sizeof_TriggerRecordHeaderData :: 64 word)"
    by (rule total_size_Inr) simp
  show ?thesis
  proof (cases "sz \<le> length buf")
    case True
    with from_buffer_copy_result(1)[OF d n sz room] show ?thesis by simp
  next
    case False
    then have "length buf < sz" by simp
    from from_buffer_copy_result(2)[OF d n sz room this] False show ?thesis
      by (simp add: malloc_ok[OF room])
  qed
qed

theorem wrap_external_copy_makes_no_size_check_witness:
  "deref truncated_heap (Some 0) = Inr (object_repr (example_header 1))
   \<and> get_total_size_bytes 4 truncated_heap \<lparr>data_arr = Some 0, alloc = False\<rparr> = Inr 52
   \<and> 52 \<le> avail truncated_heap
   \<and> \<not> 52 \<le> length (object_repr (example_header 1))
   \<and> TriggerRecordHeader_from_buffer 4 (Some 0) True truncated_heap =
        (Inl (Undefined OutOfBounds), snd (malloc 52 truncated_heap))"
proof -
  have n: "read_field truncated_heap (Some 0) off_num_requested_components 8 = Inr (1 :: 64 word)"
    by (simp add: read_field_object_repr(3)[OF deref_example(2)] example_header_sel)
  have d: "deref truncated_heap (Some 0) = Inr (object_repr (example_header 1))"
    using deref_example(2) by simp
  have t: "get_total_size_bytes 4 truncated_heap \<lparr>data_arr = Some 0, alloc = False\<rparr> = Inr 52"
    using n by (simp add: get_total_size_bytes_def sizeof_TriggerRecordHeaderData_def)
  have room: "52 \<le> avail truncated_heap" by (simp add: truncated_heap_def)
  show ?thesis
    using wrap_external_copy_makes_no_size_check[OF d t room] d t room
    by (simp add: length_object_repr)
qed

text \<open>
  C9 at an allocator with nothing left: neither owning constructor tests the pointer that
  \<open>malloc\<close> returns. Each goes on to write through the null pointer, which is undefined;
  \<open>MemoryAllocationFailed\<close> is not thrown.
\<close>

theorem allocation_failure_is_unchecked:
  "TriggerRecordHeader_from_components 4 [] exhausted_heap =
     (Inl (Undefined NullPointer), exhausted_heap)
   \<and> TriggerRecordHeader_from_buffer 4 (Some 0) True exhausted_heap =
     (Inl (Undefined NullPointer), exhausted_heap)
   \<and> \<not> is_thrown (fst (TriggerRecordHeader_from_components 4 [] exhausted_heap))
   \<and> \<not> is_thrown (fst (TriggerRecordHeader_from_buffer 4 (Some 0) True exhausted_heap))"
proof -
  have a: "TriggerRecordHeader_from_components 4 [] exhausted_heap =
     (Inl (Undefined NullPointer), exhausted_heap)"
    by (rule from_components_malloc_fail)
       (simp add: exhausted_heap_def sizeof_TriggerRecordHeaderData_def)
  have n: "read_field exhausted_heap (Some 0) off_num_requested_components 8 = Inr (0 :: 64 word)"
    by (simp add: read_field_object_repr(3)[OF deref_example(3)] example_header_sel)
  have b: "TriggerRecordHeader_from_buffer 4 (Some 0) True exhausted_heap =
     (Inl (Undefined NullPointer), exhausted_heap)"
    by (rule from_buffer_copy_result(3)[OF deref_example(3) n, where sz = 48])
       (simp_all add: sizeof_TriggerRecordHeaderData_def length_object_repr exhausted_heap_def)
  show ?thesis by (simp add: a b)
qed

text \<open>
  C2 at an index that is not below the count: the range test of \<open>at\<close> and of
  \<open>operator[]\<close> has an empty body. On a buffer whose header counts one component,
  index 1 reads the four bytes that follow the counted component, and index 2, past the
  end of the buffer, is undefined; nothing is thrown.
\<close>

theorem element_access_is_unchecked:
  "TriggerRecordHeader_from_buffer 4 (Some 0) False example_heap = (Inr borrowed0, example_heap)
   \<and> get_num_requested_components example_heap borrowed0 = Inr 1
   \<and> at 4 example_heap borrowed0 0 = Inr [Some 1, Some 2, Some 3, Some 4]
   \<and> at 4 example_heap borrowed0 1 = Inr [Some 5, Some 6, Some 7, Some 8]
   \<and> subscript 4 example_heap borrowed0 1 = Inr (Some 0, 52)
   \<and> at 4 example_heap borrowed0 2 = Inl (Undefined OutOfBounds)
   \<and> \<not> is_thrown (at 4 example_heap borrowed0 2)"
proof -
  have d: "deref example_heap (data_arr borrowed0) =
      Inr (object_repr (example_header 1) @ concat example_components)"
    using deref_example(1) by (simp add: borrowed0_def)
  have n: "read_field example_heap (data_arr borrowed0) off_num_requested_components 8 = Inr (1 :: 64 word)"
    by (simp add: read_field_object_repr(3)[OF d] example_header_sel)
  have a0: "at 4 example_heap borrowed0 0 = Inr [Some 1, Some 2, Some 3, Some 4]"
    by (subst at_deref[OF d n])
       (simp_all add: length_object_repr sizeof_TriggerRecordHeaderData_def example_components_def)
  have a1: "at 4 example_heap borrowed0 1 = Inr [Some 5, Some 6, Some 7, Some 8]"
    by (subst at_deref[OF d n])
       (simp_all add: length_object_repr sizeof_TriggerRecordHeaderData_def example_components_def)
  have a2: "at 4 example_heap borrowed0 2 = Inl (Undefined OutOfBounds)"
    by (simp add: at_def n load_def d length_object_repr sizeof_TriggerRecordHeaderData_def
          example_components_def)
  have s: "subscript 4 example_heap borrowed0 1 = Inr (Some 0, 52)"
    by (simp add: subscript_def n sizeof_TriggerRecordHeaderData_def) (simp add: borrowed0_def)
  have c: "TriggerRecordHeader_from_buffer 4 (Some 0) False example_heap = (Inr borrowed0, example_heap)"
    by (simp add: TriggerRecordHeader_from_buffer_def TriggerRecordHeader_init_def borrowed0_def)
  show ?thesis
    using n a0 a1 a2 s c by (simp add: get_num_requested_components_def)
qed

text \<open>
  C4: for a valid instance, the constructor applied to the instance's storage location
  with \<open>copy_from_buffer = true\<close> gives an instance with the same header (every member,
  through \<open>get_header\<close> and through each getter), the same component at every index below
  the count, and the same total size. The allocation is assumed to succeed.
\<close>

theorem wrap_external_copy_round_trip:
  assumes v: "valid_instance esz h src"
    and t: "get_total_size_bytes esz h src = Inr sz"
    and room: "sz \<le> avail h"
  shows "case TriggerRecordHeader_from_buffer esz (get_storage_location src) True h of
           (Inl f, h') \<Rightarrow> False
         | (Inr cpy, h') \<Rightarrow>
             get_header h' cpy = get_header h src \<and> \<not> isl (get_header h src)
           \<and> get_trigger_number h' cpy = get_trigger_number h src
           \<and> get_trigger_timestamp h' cpy = get_trigger_timestamp h src
           \<and> get_num_requested_components h' cpy = get_num_requested_components h src
           \<and> get_run_number h' cpy = get_run_number h src
           \<and> get_error_bits h' cpy = get_error_bits h src
           \<and> get_trigger_type h' cpy = get_trigger_type h src
           \<and> (get_num_requested_components h src = Inr n \<and> i < unat n \<longrightarrow>
                 at esz h' cpy i = at esz h src i \<and> \<not> isl (at esz h src i))
           \<and> get_total_size_bytes esz h' cpy = Inr sz"
proof -
  from v t obtain buf and m :: "64 word" where
    d: "deref h (data_arr src) = Inr buf"
    and m: "read_field h (data_arr src) off_num_requested_components 8 = Inr m"
    and sz: "sz = unat (m * of_nat esz + of_nat sizeof_TriggerRecordHeaderData :: 64 word)"
    and sz': "sz = sizeof_TriggerRecordHeaderData + unat m * esz"
    and fit: "sz \<le> length buf"
    by (rule valid_instance_size)
  define cpy where "cpy = \<lparr>data_arr = Some (length (blocks h)), alloc = True\<rparr>"
  define h' where "h' = h\<lparr>blocks := blocks h @ [Some (take sz buf)], avail := avail h - sz\<rparr>"
  have r: "TriggerRecordHeader_from_buffer esz (get_storage_location src) True h = (Inr cpy, h')"
    unfolding cpy_def h'_def get_storage_location_def
    by (rule from_buffer_copy_result(1)[OF d m sz room fit])
  have d': "deref h' (data_arr cpy) = Inr (take sz buf)"
    unfolding cpy_def h'_def by (simp add: deref_append_new)
  have hdr: "sizeof_TriggerRecordHeaderData \<le> sz" using sz' by simp
  have ld: "load h' (data_arr cpy) off k = load h (data_arr src) off k" if "off + k \<le> sz" for off k
    by (rule load_take(1)[OF d' d fit that])
  note rf = read_field_take[OF d' d fit]
  have gh: "get_header h' cpy = get_header h src"
    using hdr by (simp add: get_header_def ld)
  have gh_ok: "\<not> isl (get_header h src)"
    using hdr load_take(2)[OF d' d fit, of 0 sizeof_TriggerRecordHeaderData]
    by (simp add: get_header_def)
  have m': "read_field h' (data_arr cpy) off_num_requested_components 8 = Inr m"
    using rf[where ?'a = 64, of off_num_requested_components 8] m hdr by (simp add: off_defs)
  have el: "at esz h' cpy i = at esz h src i \<and> \<not> isl (at esz h src i)"
    if "get_num_requested_components h src = Inr n" "i < unat n"
  proof -
    from that(1) m have "n = m" by (simp add: get_num_requested_components_def)
    with that(2) have "Suc i * esz \<le> unat m * esz" by (intro mult_le_mono) simp_all
    then have f: "sizeof_TriggerRecordHeaderData + i * esz + esz \<le> sz" using sz' by simp
    show ?thesis
      using load_take(2)[OF d' d fit f]
      by (simp add: at_def m m' ld[OF f])
  qed
  have ts: "get_total_size_bytes esz h' cpy = Inr sz"
    by (simp add: get_total_size_bytes_def m' sz)
  show ?thesis
    unfolding r
    using el hdr
    by (simp add: gh gh_ok ts get_trigger_number_def get_trigger_timestamp_def
          get_num_requested_components_def get_run_number_def get_error_bits_def
          get_trigger_type_def rf off_defs)
qed

theorem wrap_external_copy_round_trip_witness:
  "valid_instance 4 example_heap borrowed0
   \<and> get_total_size_bytes 4 example_heap borrowed0 = Inr 52
   \<and> 52 \<le> avail example_heap
   \<and> get_num_requested_components example_heap borrowed0 = Inr 1
   \<and> (case TriggerRecordHeader_from_buffer 4 (get_storage_location borrowed0) True example_heap of
           (Inl f, h') \<Rightarrow> False
         | (Inr cpy, h') \<Rightarrow>
             get_header h' cpy = get_header example_heap borrowed0
           \<and> get_trigger_number h' cpy = Inr 42
           \<and> get_run_number h' cpy = Inr 7
           \<and> at 4 h' cpy 0 = at 4 example_heap borrowed0 0
           \<and> get_total_size_bytes 4 h' cpy = Inr 52)"
proof -
  have room: "52 \<le> avail example_heap" by (simp add: example_heap_def)
  show ?thesis
    using wrap_external_copy_round_trip[OF valid_example example_reads(2) room, of 1 0]
      valid_example example_reads room
    by (simp split: prod.splits sum.splits)
qed

text \<open>
  C5: copying a valid instance, owning or borrowing, by the copy constructor or by copy
  assignment from another object, gives an owning instance over a block that was not
  live before and now holds the source's \<open>sz\<close> bytes; the source's buffer is untouched.
  No change made through the copy (any setter, any component assignment) changes the
  source's buffer, header or components, and the two can be destroyed in either order.
  Assigning an object to itself changes nothing. The allocation is assumed to succeed.
\<close>

theorem copy_yields_independent_owning_copy:
  assumes v: "valid_instance esz h src"
    and t: "get_total_size_bytes esz h src = Inr sz"
    and room: "sz \<le> avail h"
  shows "(case TriggerRecordHeader_copy esz src h of
            (Inl f, h') \<Rightarrow> False
          | (Inr cpy, h') \<Rightarrow>
                alloc cpy
              \<and> deref h (data_arr cpy) = Inl (Undefined InvalidPointer)
              \<and> deref h' (data_arr cpy) = map_sum id (take sz) (deref h (data_arr src))
              \<and> \<not> isl (deref h' (data_arr cpy))
              \<and> deref h' (data_arr src) = deref h (data_arr src)
              \<and> (case mutate esz m cpy h' of
                    Inl f \<Rightarrow> True
                  | Inr h'' \<Rightarrow>
                      deref h'' (data_arr src) = deref h (data_arr src)
                    \<and> get_header h'' src = get_header h src
                    \<and> at esz h'' src i = at esz h src i)
              \<and> (case TriggerRecordHeader_destroy cpy h' of
                    Inl f \<Rightarrow> False
                  | Inr h'' \<Rightarrow>
                      deref h'' (data_arr src) = deref h (data_arr src)
                    \<and> \<not> isl (TriggerRecordHeader_destroy src h''))
              \<and> (case TriggerRecordHeader_destroy src h' of
                    Inl f \<Rightarrow> False
                  | Inr h'' \<Rightarrow>
                      deref h'' (data_arr cpy) = deref h' (data_arr cpy)
                    \<and> \<not> isl (TriggerRecordHeader_destroy cpy h'')))
       \<and> (this \<noteq> other \<and> objs other = src \<longrightarrow>
           (case copy_assign esz this other (objs, h) of
              (Inl f, s') \<Rightarrow> False
            | (Inr u, objs', h') \<Rightarrow>
                objs' other = src
              \<and> alloc (objs' this)
              \<and> deref h (data_arr (objs' this)) = Inl (Undefined InvalidPointer)
              \<and> deref h' (data_arr (objs' this)) = map_sum id (take sz) (deref h (data_arr src))
              \<and> \<not> isl (deref h' (data_arr (objs' this)))
              \<and> deref h' (data_arr src) = deref h (data_arr src)
              \<and> (case mutate esz m (objs' this) h' of
                    Inl f \<Rightarrow> True
                  | Inr h'' \<Rightarrow>
                      deref h'' (data_arr src) = deref h (data_arr src)
                    \<and> get_header h'' src = get_header h src
                    \<and> at esz h'' src i = at esz h src i)
              \<and> (case TriggerRecordHeader_destroy (objs' this) h' of
                    Inl f \<Rightarrow> False
                  | Inr h'' \<Rightarrow>
                      deref h'' (data_arr src) = deref h (data_arr src)
                    \<and> \<not> isl (TriggerRecordHeader_destroy src h''))
              \<and> (case TriggerRecordHeader_destroy src h' of
                    Inl f \<Rightarrow> False
                  | Inr h'' \<Rightarrow>
                      deref h'' (data_arr (objs' this)) = deref h' (data_arr (objs' this))
                    \<and> \<not> isl (TriggerRecordHeader_destroy (objs' this) h''))))
       \<and> copy_assign esz this this (objs, h) = (Inr (), objs, h)"
proof -
  from v t obtain buf and n :: "64 word" where
    d: "deref h (data_arr src) = Inr buf"
    and n: "read_field h (data_arr src) off_num_requested_components 8 = Inr n"
    and sz: "sz = unat (n * of_nat esz + of_nat sizeof_TriggerRecordHeaderData :: 64 word)"
    and fit: "sz \<le> length buf"
    by (rule valid_instance_size)
  define cpy where "cpy = \<lparr>data_arr = Some (length (blocks h)), alloc = True\<rparr>"
  define h' where "h' = h\<lparr>blocks := blocks h @ [Some (take sz buf)], avail := avail h - sz\<rparr>"
  note post = deep_copy_post[where esz = esz and m = m and i = i, OF d cpy_def h'_def]
  have r1: "TriggerRecordHeader_copy esz src h = (Inr cpy, h')"
    unfolding TriggerRecordHeader_copy_def cpy_def h'_def
    by (rule from_buffer_copy_result(1)[OF d n sz room fit])
  have A: "case TriggerRecordHeader_copy esz src h of
            (Inl f, h') \<Rightarrow> False
          | (Inr cpy, h') \<Rightarrow>
                alloc cpy
              \<and> deref h (data_arr cpy) = Inl (Undefined InvalidPointer)
              \<and> deref h' (data_arr cpy) = map_sum id (take sz) (deref h (data_arr src))
              \<and> \<not> isl (deref h' (data_arr cpy))
              \<and> deref h' (data_arr src) = deref h (data_arr src)
              \<and> (case mutate esz m cpy h' of
                    Inl f \<Rightarrow> True
                  | Inr h'' \<Rightarrow>
                      deref h'' (data_arr src) = deref h (data_arr src)
                    \<and> get_header h'' src = get_header h src
                    \<and> at esz h'' src i = at esz h src i)
              \<and> (case TriggerRecordHeader_destroy cpy h' of
                    Inl f \<Rightarrow> False
                  | Inr h'' \<Rightarrow>
                      deref h'' (data_arr src) = deref h (data_arr src)
                    \<and> \<not> isl (TriggerRecordHeader_destroy src h''))
              \<and> (case TriggerRecordHeader_destroy src h' of
                    Inl f \<Rightarrow> False
                  | Inr h'' \<Rightarrow>
                      deref h'' (data_arr cpy) = deref h' (data_arr cpy)
                    \<and> \<not> isl (TriggerRecordHeader_destroy cpy h''))"
    unfolding r1 prod.case sum.case by (rule post)
  have B: "case copy_assign esz this other (objs, h) of
              (Inl f, s') \<Rightarrow> False
            | (Inr u, objs', h') \<Rightarrow>
                objs' other = src
              \<and> alloc (objs' this)
              \<and> deref h (data_arr (objs' this)) = Inl (Undefined InvalidPointer)
              \<and> deref h' (data_arr (objs' this)) = map_sum id (take sz) (deref h (data_arr src))
              \<and> \<not> isl (deref h' (data_arr (objs' this)))
              \<and> deref h' (data_arr src) = deref h (data_arr src)
              \<and> (case mutate esz m (objs' this) h' of
                    Inl f \<Rightarrow> True
                  | Inr h'' \<Rightarrow>
                      deref h'' (data_arr src) = deref h (data_arr src)
                    \<and> get_header h'' src = get_header h src
                    \<and> at esz h'' src i = at esz h src i)
              \<and> (case TriggerRecordHeader_destroy (objs' this) h' of
                    Inl f \<Rightarrow> False
                  | Inr h'' \<Rightarrow>
                      deref h'' (data_arr src) = deref h (data_arr src)
                    \<and> \<not> isl (TriggerRecordHeader_destroy src h''))
              \<and> (case TriggerRecordHeader_destroy src h' of
                    Inl f \<Rightarrow> False
                  | Inr h'' \<Rightarrow>
                      deref h'' (data_arr (objs' this)) = deref h' (data_arr (objs' this))
                    \<and> \<not> isl (TriggerRecordHeader_destroy (objs' this) h''))"
    if "this \<noteq> other" "objs other = src"
  proof -
    have r2: "copy_assign esz this other (objs, h) = (Inr (), objs(this := cpy), h')"
      unfolding cpy_def h'_def
      by (rule copy_assign_result[OF that(1) _ _ sz room fit]) (simp_all add: that(2) d n)
    have e1: "(objs(this := cpy)) this = cpy" by simp
    have e2: "(objs(this := cpy)) other = src" using that by simp
    show ?thesis
      unfolding r2 prod.case sum.case e1 e2 by (rule conjI[OF refl post])
  qed
  have C: "copy_assign esz this this (objs, h) = (Inr (), objs, h)"
    by (simp add: copy_assign_def)
  show ?thesis
  proof (intro conjI impI)
    assume "this \<noteq> other \<and> objs other = src"
    then have "this \<noteq> other" "objs other = src" by simp_all
    then show "case copy_assign esz this other (objs, h) of
              (Inl f, s') \<Rightarrow> False
            | (Inr u, objs', h') \<Rightarrow>
                objs' other = src
              \<and> alloc (objs' this)
              \<and> deref h (data_arr (objs' this)) = Inl (Undefined InvalidPointer)
              \<and> deref h' (data_arr (objs' this)) = map_sum id (take sz) (deref h (data_arr src))
              \<and> \<not> isl (deref h' (data_arr (objs' this)))
              \<and> deref h' (data_arr src) = deref h (data_arr src)
              \<and> (case mutate esz m (objs' this) h' of
                    Inl f \<Rightarrow> True
                  | Inr h'' \<Rightarrow>
                      deref h'' (data_arr src) = deref h (data_arr src)
                    \<and> get_header h'' src = get_header h src
                    \<and> at esz h'' src i = at esz h src i)
              \<and> (case TriggerRecordHeader_destroy (objs' this) h' of
                    Inl f \<Rightarrow> False
                  | Inr h'' \<Rightarrow>
                      deref h'' (data_arr src) = deref h (data_arr src)
                    \<and> \<not> isl (TriggerRecordHeader_destroy src h''))
              \<and> (case TriggerRecordHeader_destroy src h' of
                    Inl f \<Rightarrow> False
                  | Inr h'' \<Rightarrow>
                      deref h'' (data_arr (objs' this)) = deref h' (data_arr (objs' this))
                    \<and> \<not> isl (TriggerRecordHeader_destroy (objs' this) h''))" by (rule B)
  qed (rule A, rule C)
qed

theorem copy_yields_independent_owning_copy_witness:
  "valid_instance 4 example_heap borrowed0
   \<and> get_total_size_bytes 4 example_heap borrowed0 = Inr 52
   \<and> 52 \<le> avail example_heap
   \<and> (case TriggerRecordHeader_copy 4 borrowed0 example_heap of
            (Inl f, h') \<Rightarrow> False
          | (Inr cpy, h') \<Rightarrow>
                alloc cpy
              \<and> deref example_heap (data_arr cpy) = Inl (Undefined InvalidPointer)
              \<and> deref h' (data_arr cpy) = map_sum id (take 52) (deref example_heap (data_arr borrowed0))
              \<and> \<not> isl (deref h' (data_arr cpy))
              \<and> deref h' (data_arr borrowed0) = deref example_heap (data_arr borrowed0)
              \<and> (case mutate 4 (Set_trigger_number 99) cpy h' of
                    Inl f \<Rightarrow> True
                  | Inr h'' \<Rightarrow>
                      deref h'' (data_arr borrowed0) = deref example_heap (data_arr borrowed0)
                    \<and> get_header h'' borrowed0 = get_header example_heap borrowed0
                    \<and> at 4 h'' borrowed0 0 = at 4 example_heap borrowed0 0)
              \<and> (case TriggerRecordHeader_destroy cpy h' of
                    Inl f \<Rightarrow> False
                  | Inr h'' \<Rightarrow>
                      deref h'' (data_arr borrowed0) = deref example_heap (data_arr borrowed0)
                    \<and> \<not> isl (TriggerRecordHeader_destroy borrowed0 h''))
              \<and> (case TriggerRecordHeader_destroy borrowed0 h' of
                    Inl f \<Rightarrow> False
                  | Inr h'' \<Rightarrow>
                      deref h'' (data_arr cpy) = deref h' (data_arr cpy)
                    \<and> \<not> isl (TriggerRecordHeader_destroy cpy h'')))
   \<and> (case copy_assign 4 0 1 (\<lambda>a. borrowed0, example_heap) of
              (Inl f, s') \<Rightarrow> False
            | (Inr u, objs', h') \<Rightarrow>
                objs' 1 = borrowed0
              \<and> alloc (objs' 0)
              \<and> deref example_heap (data_arr (objs' 0)) = Inl (Undefined InvalidPointer)
              \<and> deref h' (data_arr (objs' 0)) = map_sum id (take 52) (deref example_heap (data_arr borrowed0))
              \<and> \<not> isl (deref h' (data_arr (objs' 0)))
              \<and> deref h' (data_arr borrowed0) = deref example_heap (data_arr borrowed0)
              \<and> (case mutate 4 (Set_trigger_number 99) (objs' 0) h' of
                    Inl f \<Rightarrow> True
                  | Inr h'' \<Rightarrow>
                      deref h'' (data_arr borrowed0) = deref example_heap (data_arr borrowed0)
                    \<and> get_header h'' borrowed0 = get_header example_heap borrowed0
                    \<and> at 4 h'' borrowed0 0 = at 4 example_heap borrowed0 0)
              \<and> (case TriggerRecordHeader_destroy (objs' 0) h' of
                    Inl f \<Rightarrow> False
                  | Inr h'' \<Rightarrow>
                      deref h'' (data_arr borrowed0) = deref example_heap (data_arr borrowed0)
                    \<and> \<not> isl (TriggerRecordHeader_destroy borrowed0 h''))
              \<and> (case TriggerRecordHeader_destroy borrowed0 h' of
                    Inl f \<Rightarrow> False
                  | Inr h'' \<Rightarrow>
                      deref h'' (data_arr (objs' 0)) = deref h' (data_arr (objs' 0))
                    \<and> \<not> isl (TriggerRecordHeader_destroy (objs' 0) h'')))"
proof -
  have room: "52 \<le> avail example_heap" by (simp add: example_heap_def)
  note th = copy_yields_independent_owning_copy[where m = "Set_trigger_number 99" and i = 0
            and this = 0 and other = 1 and objs = "\<lambda>a. borrowed0",
            OF valid_example example_reads(2) room]
  have p: "(0::nat) \<noteq> 1 \<and> borrowed0 = borrowed0" by simp
  from valid_example example_reads(2) room th[THEN conjunct1]
    th[THEN conjunct2, THEN conjunct1, THEN mp, OF p]
  show ?thesis by (intro conjI)
qed

text \<open>
  C7: on an instance whose error bits are determinate, \<open>set_error_bit(k, v)\<close> with
  \<open>k < 32\<close> succeeds; then \<open>get_error_bit(k)\<close> is \<open>v\<close>, every other bit \<open>j < 32\<close> reads as
  before, the header differs in \<open>error_bits\<close> only, every other getter and every
  component read gives what it gave before, and no other block changes.
\<close>

theorem set_error_bit_then_get_and_frame:
  assumes e: "get_error_bits h t = Inr w" and k: "k < 32"
  shows "case set_error_bit k v t h of
           Inl f \<Rightarrow> False
         | Inr h' \<Rightarrow>
             get_error_bit k h' t = Inr v
           \<and> (j < 32 \<and> j \<noteq> k \<longrightarrow> get_error_bit j h' t = get_error_bit j h t)
           \<and> get_header h' t =
               map_sum id (\<lambda>d. d\<lparr>error_bits := Some (if v then set_bit k w else unset_bit k w)\<rparr>)
                 (get_header h t)
           \<and> get_trigger_number h' t = get_trigger_number h t
           \<and> get_trigger_timestamp h' t = get_trigger_timestamp h t
           \<and> get_num_requested_components h' t = get_num_requested_components h t
           \<and> get_run_number h' t = get_run_number h t
           \<and> get_trigger_type h' t = get_trigger_type h t
           \<and> at esz h' t i = at esz h t i
           \<and> (q \<noteq> data_arr t \<longrightarrow> deref h' q = deref h q)"
proof -
  define w' where "w' = (if v then set_bit k w else unset_bit k w)"
  let ?p = "data_arr t"
  from e have rw: "read_field h ?p off_error_bits 4 = Inr w"
    by (simp add: get_error_bits_def)
  then obtain buf where d: "deref h ?p = Inr buf" and fit: "off_error_bits + 4 \<le> length buf"
    by (rule read_field_Inr_fits)
  have "\<not> isl (write_field h ?p off_error_bits 4 w')"
    by (rule write_field_ok[OF d fit])
  then obtain h' where wr: "write_field h ?p off_error_bits 4 w' = Inr h'"
    by (cases "write_field h ?p off_error_bits 4 w'") simp_all
  have s: "set_error_bit k v t h = Inr h'"
    using k by (simp add: set_error_bit_def e set_error_bits_def wr[unfolded w'_def])
  have st: "store h ?p off_error_bits (field_bytes 4 (Some w')) = Inr h'"
    using wr by (simp add: write_field_def)
  have g: "get_error_bits h' t = Inr w'"
    unfolding get_error_bits_def by (rule write_read_field[OF wr]) simp_all
  have c1: "get_error_bit k h' t = Inr v"
    using k by (simp add: get_error_bit_def g w'_def bit_update_32(1))
  have c2: "j < 32 \<and> j \<noteq> k \<longrightarrow> get_error_bit j h' t = get_error_bit j h t"
    using k by (simp add: get_error_bit_def g e w'_def bit_update_32(2))
  have fit40: "40 \<le> length buf" using fit by (simp add: off_defs)
  have d': "deref h' ?p = Inr (take 36 buf @ field_bytes 4 (Some w') @ drop 40 buf)"
    using store_deref(1)[OF st d] by (simp add: off_defs length_field_bytes)
  have sv: "struct_value (take 36 buf @ field_bytes 4 (Some w') @ drop 40 buf) =
      (struct_value buf)\<lparr>error_bits := Some w'\<rparr>"
    using struct_value_splice_error_bits[OF _ fit40, of "field_bytes 4 (Some w')"]
    by (simp add: length_field_bytes field_value_field_bytes)
  have c3: "get_header h' t = map_sum id (\<lambda>d. d\<lparr>error_bits := Some w'\<rparr>) (get_header h t)"
    using fit40
    by (simp add: get_header_deref[OF d] get_header_deref[OF d'] sv length_field_bytes)
  have c4: "get_trigger_number h' t = get_trigger_number h t"
    unfolding get_trigger_number_def
    by (rule write_read_other(1)[OF wr]) (simp add: off_defs)
  have c5: "get_trigger_timestamp h' t = get_trigger_timestamp h t"
    unfolding get_trigger_timestamp_def
    by (rule write_read_other(1)[OF wr]) (simp add: off_defs)
  have n: "read_field h' ?p off_num_requested_components 8 =
      (read_field h ?p off_num_requested_components 8 :: failure + 64 word)"
    by (rule write_read_other(1)[OF wr]) (simp add: off_defs)
  have c6: "get_num_requested_components h' t = get_num_requested_components h t"
    unfolding get_num_requested_components_def by (rule n)
  have c7: "get_run_number h' t = get_run_number h t"
    unfolding get_run_number_def
    by (rule write_read_other(1)[OF wr]) (simp add: off_defs)
  have c8: "get_trigger_type h' t = get_trigger_type h t"
    unfolding get_trigger_type_def
    by (rule write_read_other(1)[OF wr]) (simp add: off_defs)
  have l: "load h' ?p (sizeof_TriggerRecordHeaderData + i * esz) esz =
      load h ?p (sizeof_TriggerRecordHeaderData + i * esz) esz"
    by (rule write_read_other(2)[OF wr]) (simp add: off_defs)
  have c9: "at esz h' t i = at esz h t i"
    unfolding at_def n l by (rule refl)
  have c10: "q \<noteq> data_arr t \<longrightarrow> deref h' q = deref h q"
    using store_other[OF st] by simp
  from c1 c2 c3[unfolded w'_def] c4 c5 c6 c7 c8 c9 c10
  show ?thesis unfolding s sum.case by (intro conjI)
qed

theorem set_error_bit_then_get_and_frame_witness:
  "get_error_bits example_heap borrowed0 = Inr 5 \<and> (1::nat) < 32
   \<and> (case set_error_bit 1 True borrowed0 example_heap of
         Inl f \<Rightarrow> False
       | Inr h' \<Rightarrow>
           get_error_bit 1 h' borrowed0 = Inr True
         \<and> get_error_bit 0 h' borrowed0 = get_error_bit 0 example_heap borrowed0
         \<and> get_trigger_number h' borrowed0 = get_trigger_number example_heap borrowed0
         \<and> get_run_number h' borrowed0 = get_run_number example_heap borrowed0
         \<and> at 4 h' borrowed0 0 = at 4 example_heap borrowed0 0)"
proof -
  have k: "(1::nat) < 32" by simp
  note th = set_error_bit_then_get_and_frame[where v = True and j = 0 and esz = 4 and i = 0
      and q = None, OF example_reads(3) k]
  show ?thesis
  proof (cases "set_error_bit 1 True borrowed0 example_heap")
    case (Inl f)
    with th show ?thesis by simp
  next
    case (Inr h')
    with th example_reads(3) show ?thesis by simp
  qed
qed

text \<open>
  C6: with \<open>copy_from_buffer = false\<close> the constructor always succeeds, leaves the heap
  as it is, stores the caller's pointer (\<open>get_storage_location\<close> returns it) and does not
  own it. The destructor of an instance that does not own its buffer leaves the heap as
  it is; the destructor of an owning instance with a live buffer releases exactly that
  block, returning its bytes to the allocator.
\<close>

theorem wrap_external_borrows_and_destroy_releases_iff_owning:
  "(case TriggerRecordHeader_from_buffer esz p False h of
      (Inl f, h') \<Rightarrow> False
    | (Inr b, h') \<Rightarrow>
        h' = h \<and> get_storage_location b = p \<and> \<not> alloc b
      \<and> TriggerRecordHeader_destroy b h' = Inr h')
   \<and> (\<not> alloc t \<longrightarrow> TriggerRecordHeader_destroy t h = Inr h)
   \<and> (alloc t \<and> deref h (data_arr t) = Inr buf \<longrightarrow>
        (case TriggerRecordHeader_destroy t h of
           Inl f \<Rightarrow> False
         | Inr h'' \<Rightarrow>
             deref h'' q = (if q = data_arr t then Inl (Undefined InvalidPointer) else deref h q)
           \<and> avail h'' = avail h + length buf))"
proof (intro conjI impI)
  show "case TriggerRecordHeader_from_buffer esz p False h of
      (Inl f, h') \<Rightarrow> False
    | (Inr b, h') \<Rightarrow>
        h' = h \<and> get_storage_location b = p \<and> \<not> alloc b
      \<and> TriggerRecordHeader_destroy b h' = Inr h'"
    by (simp add: TriggerRecordHeader_from_buffer_def TriggerRecordHeader_init_def
          get_storage_location_def TriggerRecordHeader_destroy_def)
  show "TriggerRecordHeader_destroy t h = Inr h" if "\<not> alloc t"
    using that by (simp add: TriggerRecordHeader_destroy_def)
  show "case TriggerRecordHeader_destroy t h of
           Inl f \<Rightarrow> False
         | Inr h'' \<Rightarrow>
             deref h'' q = (if q = data_arr t then Inl (Undefined InvalidPointer) else deref h q)
           \<and> avail h'' = avail h + length buf"
    if "alloc t \<and> deref h (data_arr t) = Inr buf"
  proof -
    from that have a: "TriggerRecordHeader_destroy t h = free (data_arr t) h"
      and d: "deref h (data_arr t) = Inr buf"
      by (simp_all add: TriggerRecordHeader_destroy_def)
    show ?thesis unfolding a by (rule free_result[OF d])
  qed
qed

theorem wrap_external_borrows_and_destroy_releases_iff_owning_witness:
  "alloc \<lparr>data_arr = Some 0, alloc = True\<rparr>
   \<and> deref exhausted_heap (data_arr \<lparr>data_arr = Some 0, alloc = True\<rparr>)
       = Inr (object_repr (example_header 0))
   \<and> (case TriggerRecordHeader_destroy \<lparr>data_arr = Some 0, alloc = True\<rparr> exhausted_heap of
         Inl f \<Rightarrow> False
       | Inr h'' \<Rightarrow> deref h'' (Some 0) = Inl (Undefined InvalidPointer) \<and> avail h'' = 48)
   \<and> TriggerRecordHeader_destroy borrowed0 exhausted_heap = Inr exhausted_heap"
proof -
  have d: "deref exhausted_heap (data_arr \<lparr>data_arr = Some 0, alloc = True\<rparr>)
       = Inr (object_repr (example_header 0))"
    using deref_example(3) by simp
  have a: "alloc \<lparr>data_arr = Some 0, alloc = True\<rparr>" by simp
  have b: "\<not> alloc borrowed0" by (simp add: borrowed0_def)
  note th1 = wrap_external_borrows_and_destroy_releases_iff_owning
     [where t = "\<lparr>data_arr = Some 0, alloc = True\<rparr>" and h = exhausted_heap and q = "Some 0"
        and buf = "object_repr (example_header 0)",
      THEN conjunct2, THEN conjunct2, THEN mp, OF conjI[OF a d]]
  note th2 = wrap_external_borrows_and_destroy_releases_iff_owning
     [where t = borrowed0 and h = exhausted_heap, THEN conjunct2, THEN conjunct1, THEN mp, OF b]
  have c: "case TriggerRecordHeader_destroy \<lparr>data_arr = Some 0, alloc = True\<rparr> exhausted_heap of
         Inl f \<Rightarrow> False
       | Inr h'' \<Rightarrow> deref h'' (Some 0) = Inl (Undefined InvalidPointer) \<and> avail h'' = 48"
    using th1
    by (cases "TriggerRecordHeader_destroy \<lparr>data_arr = Some 0, alloc = True\<rparr> exhausted_heap")
       (simp_all add: length_object_repr exhausted_heap_def)
  from a d c th2 show ?thesis by (intro conjI)
qed

text \<open>
  C10: the header of a record built from components has the marker \<open>0x33334444\<close>,
  version 1 and error bits 0, whatever the components; the constructor has no argument
  for the trigger number, the trigger timestamp, the run number or the trigger type,
  which are indeterminate (reading one is undefined) until the setter gives each a value.
  The allocation is assumed to succeed.
\<close>

theorem build_from_elements_header_defaults:
  assumes wf: "\<forall>c\<in>set E. length c = esz"
    and fits: "sizeof_TriggerRecordHeaderData + length E * esz < 2 ^ 64"
    and room: "sizeof_TriggerRecordHeaderData + length E * esz \<le> avail h"
  shows "case TriggerRecordHeader_from_components esz E h of
           (Inl f, h') \<Rightarrow> False
         | (Inr t, h') \<Rightarrow>
             get_header h' t =
               Inr \<lparr>trigger_record_header_marker = Some 0x33334444,
                    version = Some 1,
                    trigger_number = None,
                    trigger_timestamp = None,
                    num_requested_components = Some (of_nat (length E)),
                    run_number = None,
                    error_bits = Some 0,
                    trigger_type = None,
                    unused = None\<rparr>
           \<and> get_error_bits h' t = Inr 0
           \<and> get_trigger_number h' t = Inl (Undefined IndeterminateValue)
           \<and> get_trigger_timestamp h' t = Inl (Undefined IndeterminateValue)
           \<and> get_run_number h' t = Inl (Undefined IndeterminateValue)
           \<and> get_trigger_type h' t = Inl (Undefined IndeterminateValue)
           \<and> (case set_trigger_number tn t h' of
                 Inl f \<Rightarrow> False | Inr h'' \<Rightarrow> get_trigger_number h'' t = Inr tn)
           \<and> (case set_trigger_timestamp ts t h' of
                 Inl f \<Rightarrow> False | Inr h'' \<Rightarrow> get_trigger_timestamp h'' t = Inr ts)
           \<and> (case set_run_number rn t h' of
                 Inl f \<Rightarrow> False | Inr h'' \<Rightarrow> get_run_number h'' t = Inr rn)
           \<and> (case set_trigger_type tt t h' of
                 Inl f \<Rightarrow> False | Inr h'' \<Rightarrow> get_trigger_type h'' t = Inr tt)"
proof -
  let ?hdr = "TriggerRecordHeaderData_default\<lparr>num_requested_components := Some (of_nat (length E))\<rparr>"
  let ?buf = "object_repr ?hdr @ concat E"
  define h' where "h' = h\<lparr>blocks := blocks h @ [Some ?buf],
        avail := avail h - (sizeof_TriggerRecordHeaderData + length E * esz)\<rparr>"
  define t where "t = \<lparr>data_arr = Some (length (blocks h)), alloc = True\<rparr>"
  have r: "TriggerRecordHeader_from_components esz E h = (Inr t, h')"
    unfolding h'_def t_def by (rule from_components_result[OF wf fits room])
  have d: "deref h' (data_arr t) = Inr ?buf"
    unfolding h'_def t_def by (simp add: deref_append_new)
  have len: "sizeof_TriggerRecordHeaderData \<le> length ?buf"
    by (simp add: length_object_repr sizeof_TriggerRecordHeaderData_def)
  have c1: "get_header h' t =
               Inr \<lparr>trigger_record_header_marker = Some 0x33334444,
                    version = Some 1,
                    trigger_number = None,
                    trigger_timestamp = None,
                    num_requested_components = Some (of_nat (length E)),
                    run_number = None,
                    error_bits = Some 0,
                    trigger_type = None,
                    unused = None\<rparr>"
    unfolding get_header_deref[OF d] using len
    by (simp add: struct_value_object_repr TriggerRecordHeaderData_default_def
          TRIGGER_RECORD_HEADER_MAGIC_def TRIGGER_RECORD_HEADER_VERSION_def)
  have c2: "get_error_bits h' t = Inr 0"
    by (simp add: get_error_bits_def read_field_object_repr(5)[OF d]
          TriggerRecordHeaderData_default_def)
  have c3: "get_trigger_number h' t = Inl (Undefined IndeterminateValue)"
    by (simp add: get_trigger_number_def read_field_object_repr(1)[OF d]
          TriggerRecordHeaderData_default_def)
  have c4: "get_trigger_timestamp h' t = Inl (Undefined IndeterminateValue)"
    by (simp add: get_trigger_timestamp_def read_field_object_repr(2)[OF d]
          TriggerRecordHeaderData_default_def)
  have c5: "get_run_number h' t = Inl (Undefined IndeterminateValue)"
    by (simp add: get_run_number_def read_field_object_repr(4)[OF d]
          TriggerRecordHeaderData_default_def)
  have c6: "get_trigger_type h' t = Inl (Undefined IndeterminateValue)"
    by (simp add: get_trigger_type_def read_field_object_repr(6)[OF d]
          TriggerRecordHeaderData_default_def)
  have sg: "case write_field h' (data_arr t) off n (v :: 'a::len word) of
              Inl f \<Rightarrow> False | Inr h'' \<Rightarrow> read_field h'' (data_arr t) off n = Inr v"
    if "off + n \<le> sizeof_TriggerRecordHeaderData" "0 < n" "LENGTH('a) \<le> 8 * n" for off n v
  proof (cases "write_field h' (data_arr t) off n v")
    case (Inl f)
    from that(1) len have "off + n \<le> length ?buf" by linarith
    from write_field_ok[OF d this, of v] Inl show ?thesis by simp
  next
    case (Inr h'')
    from write_read_field[OF Inr that(2,3)] show ?thesis by (simp add: Inr)
  qed
  have c7: "case set_trigger_number tn t h' of
                 Inl f \<Rightarrow> False | Inr h'' \<Rightarrow> get_trigger_number h'' t = Inr tn"
    unfolding set_trigger_number_def get_trigger_number_def
    by (rule sg) (simp_all add: off_defs)
  have c8: "case set_trigger_timestamp ts t h' of
                 Inl f \<Rightarrow> False | Inr h'' \<Rightarrow> get_trigger_timestamp h'' t = Inr ts"
    unfolding set_trigger_timestamp_def get_trigger_timestamp_def
    by (rule sg) (simp_all add: off_defs)
  have c9: "case set_run_number rn t h' of
                 Inl f \<Rightarrow> False | Inr h'' \<Rightarrow> get_run_number h'' t = Inr rn"
    unfolding set_run_number_def get_run_number_def
    by (rule sg) (simp_all add: off_defs)
  have c10: "case set_trigger_type tt t h' of
                 Inl f \<Rightarrow> False | Inr h'' \<Rightarrow> get_trigger_type h'' t = Inr tt"
    unfolding set_trigger_type_def get_trigger_type_def
    by (rule sg) (simp_all add: off_defs)
  from c1 c2 c3 c4 c5 c6 c7 c8 c9 c10
  show ?thesis unfolding r prod.case sum.case by (intro conjI)
qed

theorem build_from_elements_header_defaults_witness:
  "length [Some 1, Some (2 :: byte)] = 2 \<and> length [Some 3, None :: mbyte] = 2
   \<and> sizeof_TriggerRecordHeaderData + length [[Some 1, Some 2], [Some 3, None :: mbyte]] * 2
        \<le> avail \<lparr>blocks = [], avail = 100\<rparr>
   \<and> (case TriggerRecordHeader_from_components 2 [[Some 1, Some 2], [Some 3, None]]
              \<lparr>blocks = [], avail = 100\<rparr> of
         (Inl f, h') \<Rightarrow> False
       | (Inr t, h') \<Rightarrow>
           get_header h' t =
               Inr \<lparr>trigger_record_header_marker = Some 0x33334444,
                    version = Some 1,
                    trigger_number = None,
                    trigger_timestamp = None,
                    num_requested_components = Some 2,
                    run_number = None,
                    error_bits = Some 0,
                    trigger_type = None,
                    unused = None\<rparr>
         \<and> get_trigger_number h' t = Inl (Undefined IndeterminateValue)
         \<and> (case set_trigger_number 42 t h' of
               Inl f \<Rightarrow> False | Inr h'' \<Rightarrow> get_trigger_number h'' t = Inr 42))"
proof -
  have wf: "\<forall>c\<in>set [[Some 1, Some 2], [Some 3, None :: mbyte]]. length c = 2" by simp
  have fits: "sizeof_TriggerRecordHeaderData + length [[Some 1, Some 2], [Some 3, None :: mbyte]] * 2
      < 2 ^ 64"
    by (simp add: sizeof_TriggerRecordHeaderData_def)
  have room: "sizeof_TriggerRecordHeaderData + length [[Some 1, Some 2], [Some 3, None :: mbyte]] * 2
        \<le> avail \<lparr>blocks = [], avail = 100\<rparr>"
    by (simp add: sizeof_TriggerRecordHeaderData_def)
  note th = build_from_elements_header_defaults[where tn = 42, OF wf fits room]
  obtain r h' where R: "TriggerRecordHeader_from_components 2 [[Some 1, Some 2], [Some 3, None]]
              \<lparr>blocks = [], avail = 100\<rparr> = (r, h')"
    by (cases "TriggerRecordHeader_from_components 2 [[Some 1, Some 2], [Some 3, None]]
              \<lparr>blocks = [], avail = 100\<rparr>")
  show ?thesis
  proof (cases r)
    case (Inl f)
    with th R show ?thesis by simp
  next
    case (Inr t)
    with th R room show ?thesis by simp
  qed
qed

end
